theory Spec2Isabelle
  imports Main "HOL-Library.Word"
begin

unbundle bit_operations_syntax

section \<open>Buffers, numbers and errors\<close>

text \<open>
  A Buffer is a list of bytes. JavaScript numbers that the code uses as sizes, indices and
  path segments are integers here; a number that can be \<open>undefined\<close> or \<open>NaN\<close> (a read
  past the end of a buffer, and arithmetic on it) is an \<open>int option\<close> with \<open>None\<close> for both.
\<close>

type_synonym byte = "8 word"
type_synonym buffer = "byte list"

text \<open>
  Everything index.ts can throw. The file declares no error class of its own: a failure is
  whatever the library called throws. \<open>PathError\<close> is \<open>BIPPath.fromString\<close> throwing,
  \<open>OutOfRange\<close> a Buffer write given a value outside the range of its width,
  \<open>OutOfBounds\<close> a Buffer write outside the buffer, \<open>InvalidArgValue\<close> \<open>Buffer.fill\<close>
  given an empty buffer as the value, \<open>EncodeError\<close> \<open>bech32m.encode\<close> throwing, and
  \<open>TransportError\<close> the rejection of \<open>transport.send\<close>.
\<close>

datatype error =
    PathError
  | OutOfRange
  | OutOfBounds
  | InvalidArgValue
  | EncodeError
  | TransportError nat

definition alloc :: "nat \<Rightarrow> buffer" where
  "alloc n = replicate n 0"

definition writeUInt8 :: "buffer \<Rightarrow> int \<Rightarrow> nat \<Rightarrow> error + buffer" where
  "writeUInt8 buf v offset =
     (if v < 0 \<or> 255 < v then Inl OutOfRange
      else if length buf < offset + 1 then Inl OutOfBounds
      else Inr (buf[offset := word_of_int v]))"

definition writeInt8 :: "buffer \<Rightarrow> int \<Rightarrow> nat \<Rightarrow> error + buffer" where
  "writeInt8 buf v offset =
     (if v < -128 \<or> 127 < v then Inl OutOfRange
      else if length buf < offset + 1 then Inl OutOfBounds
      else Inr (buf[offset := word_of_int v]))"

definition writeUInt32BE :: "buffer \<Rightarrow> int \<Rightarrow> nat \<Rightarrow> error + buffer" where
  "writeUInt32BE buf v offset =
     (if v < 0 \<or> 4294967295 < v then Inl OutOfRange
      else if length buf < offset + 4 then Inl OutOfBounds
      else Inr (buf[offset := word_of_int (v div 16777216),
                    offset + 1 := word_of_int (v div 65536),
                    offset + 2 := word_of_int (v div 256),
                    offset + 3 := word_of_int v]))"

text \<open>\<open>Buffer.slice\<close> and \<open>subarray\<close>: a negative index counts from the end, \<open>NaN\<close> is 0,
  both ends are clamped to the buffer, and an end before the start gives the empty buffer.\<close>

definition adjustOffset :: "int option \<Rightarrow> nat \<Rightarrow> nat" where
  "adjustOffset offset len =
     (case offset of
        None \<Rightarrow> 0
      | Some i \<Rightarrow>
          if i < 0 then (if 0 < i + int len then nat (i + int len) else 0)
          else if i < int len then nat i
          else len)"

definition sliceN :: "buffer \<Rightarrow> int option \<Rightarrow> int option \<Rightarrow> buffer" where
  "sliceN buf start end =
     (let s = adjustOffset start (length buf);
          e = adjustOffset end (length buf)
      in if s < e then take (e - s) (drop s buf) else [])"

definition slice :: "buffer \<Rightarrow> int \<Rightarrow> int \<Rightarrow> buffer" where
  "slice buf start end = sliceN buf (Some start) (Some end)"

text \<open>\<open>buf[i]\<close>: \<open>undefined\<close> outside the buffer, and at an index that is not a number.\<close>

definition at :: "buffer \<Rightarrow> int option \<Rightarrow> int option" where
  "at buf i =
     (case i of
        None \<Rightarrow> None
      | Some k \<Rightarrow> if 0 \<le> k \<and> k < int (length buf) then Some (uint (buf ! nat k)) else None)"

text \<open>\<open>a + b\<close> on numbers: \<open>NaN\<close> as soon as one side is \<open>undefined\<close> or \<open>NaN\<close>.\<close>

definition plus :: "int option \<Rightarrow> int option \<Rightarrow> int option" where
  "plus a b = (case a of None \<Rightarrow> None | Some x \<Rightarrow> (case b of None \<Rightarrow> None | Some y \<Rightarrow> Some (x + y)))"

subsection \<open>Text encodings of a buffer\<close>

definition hexDigit :: "nat \<Rightarrow> char" where
  "hexDigit n = ''0123456789abcdef'' ! n"

text \<open>\<open>buf.toString("hex")\<close>\<close>

definition toHex :: "buffer \<Rightarrow> string" where
  "toHex buf = concat (map (\<lambda>b. [hexDigit (unat b div 16), hexDigit (unat b mod 16)]) buf)"

text \<open>\<open>buf.toString("latin1")\<close>: one character per byte, with the byte's code.\<close>

definition toLatin1 :: "buffer \<Rightarrow> string" where
  "toLatin1 buf = map (\<lambda>b. char_of (unat b)) buf"

definition hexVal :: "char \<Rightarrow> nat option" where
  "hexVal c =
     (let n = (of_char c :: nat)
      in if 48 \<le> n \<and> n \<le> 57 then Some (n - 48)
         else if 97 \<le> n \<and> n \<le> 102 then Some (n - 87)
         else if 65 \<le> n \<and> n \<le> 70 then Some (n - 55)
         else None)"

text \<open>\<open>Buffer.from(s, "hex")\<close>: two digits a byte, stopping at the first pair that is not
  two hexadecimal digits; a last single character is dropped.\<close>

fun fromHex :: "string \<Rightarrow> buffer" where
  "fromHex (a # b # rest) =
     (case hexVal a of
        None \<Rightarrow> []
      | Some x \<Rightarrow> (case hexVal b of None \<Rightarrow> [] | Some y \<Rightarrow> word_of_nat (16 * x + y) # fromHex rest))"
| "fromHex _ = []"

text \<open>\<open>Buffer.from(s)\<close> on an ASCII string.\<close>

definition fromAscii :: "string \<Rightarrow> buffer" where
  "fromAscii s = map of_char s"

section \<open>The transport\<close>

text \<open>
  One frame handed to \<open>transport.send(cla, ins, p1, p2, data)\<close>; a call without \<open>data\<close>
  sends the empty buffer. The device is any function from the frames it has received so
  far and the current frame to a reply or a rejection. The state of a run is the list of
  frames sent, in order.
\<close>

record apdu =
  cla :: nat
  ins :: nat
  p1 :: nat
  p2 :: nat
  data :: buffer

type_synonym transport = "apdu list \<Rightarrow> apdu \<Rightarrow> error + buffer"

type_synonym 'a io = "apdu list \<Rightarrow> (error + 'a) \<times> apdu list"

definition send :: "transport \<Rightarrow> nat \<Rightarrow> nat \<Rightarrow> nat \<Rightarrow> nat \<Rightarrow> buffer \<Rightarrow> buffer io" where
  "send tr c i a b d sent =
     (let frame = \<lparr>cla = c, ins = i, p1 = a, p2 = b, data = d\<rparr>
      in (tr sent frame, sent @ [frame]))"

text \<open>Sequencing of an \<open>async\<close> body: a throw or a rejected \<open>await\<close> ends it.\<close>

definition andThen :: "'a io \<Rightarrow> ('a \<Rightarrow> 'b io) \<Rightarrow> 'b io" where
  "andThen m f sent =
     (case m sent of
        (Inl e, sent') \<Rightarrow> (Inl e, sent')
      | (Inr x, sent') \<Rightarrow> f x sent')"

text \<open>A synchronous step: its value, or its throw, with no frame sent.\<close>

definition sync :: "error + 'a \<Rightarrow> 'a io" where
  "sync r sent = (r, sent)"

section \<open>Path encoding\<close>

text \<open>
  \<open>BIPPath.fromString(path).toPathArray()\<close> belongs to the package bip32-path: it is a
  parameter \<open>bip\<close> of every operation that takes a path, \<open>None\<close> where it throws.
\<close>

type_synonym bippath = "string \<Rightarrow> int list option"

definition fromString :: "bippath \<Rightarrow> string \<Rightarrow> error + int list" where
  "fromString bip path = (case bip path of None \<Rightarrow> Inl PathError | Some segs \<Rightarrow> Inr segs)"

text \<open>\<open>bipPath.forEach((segment, index) => data.writeUInt32BE(segment, base + index * 4))\<close>\<close>

fun forEachSegment :: "int list \<Rightarrow> nat \<Rightarrow> nat \<Rightarrow> buffer \<Rightarrow> error + buffer" where
  "forEachSegment [] index base buf = Inr buf"
| "forEachSegment (segment # rest) index base buf =
     (case writeUInt32BE buf segment (base + index * 4) of
        Inl e \<Rightarrow> Inl e
      | Inr buf' \<Rightarrow> forEachSegment rest (Suc index) base buf')"

definition encodeSegments :: "int list \<Rightarrow> error + buffer" where
  "encodeSegments bipPath =
     (case writeUInt8 (alloc (1 + length bipPath * 4)) (int (length bipPath)) 0 of
        Inl e \<Rightarrow> Inl e
      | Inr buf \<Rightarrow> forEachSegment bipPath 0 1 buf)"

definition pathToBuffer :: "bippath \<Rightarrow> string \<Rightarrow> error + buffer" where
  "pathToBuffer bip path =
     (case fromString bip path of
        Inl e \<Rightarrow> Inl e
      | Inr bipPath \<Rightarrow> encodeSegments bipPath)"

section \<open>Message signing\<close>

definition magicBytes :: buffer where
  "magicBytes = fromAscii ''Nervos Message:''"

definition maxApduSize :: nat where
  "maxApduSize = 230"

text \<open>The init frame's payload of \<open>signMessage\<close>: the flag and the count are written with
  \<open>writeInt8\<close>.\<close>

definition rawPathOf :: "int list \<Rightarrow> bool \<Rightarrow> error + buffer" where
  "rawPathOf bipPath displayHex =
     (case writeInt8 (alloc (1 + 1 + length bipPath * 4)) (if displayHex then 1 else 0) 0 of
        Inl e \<Rightarrow> Inl e
      | Inr b0 \<Rightarrow>
          (case writeInt8 b0 (int (length bipPath)) 1 of
             Inl e \<Rightarrow> Inl e
           | Inr b1 \<Rightarrow> forEachSegment bipPath 0 2 b1))"

text \<open>\<open>for (let i = 0; i < txFullChunks; i++) { ... await send(0x80, 0x06, 0x01, 0x00, data) }\<close>\<close>

function sendChunks :: "transport \<Rightarrow> buffer \<Rightarrow> nat \<Rightarrow> nat \<Rightarrow> unit io" where
  "sendChunks tr rawMsg i txFullChunks sent =
     (if i < txFullChunks then
        (case send tr 0x80 0x06 0x01 0x00
                (slice rawMsg (int (i * maxApduSize)) (int ((i + 1) * maxApduSize))) sent of
           (Inl e, sent') \<Rightarrow> (Inl e, sent')
         | (Inr _, sent') \<Rightarrow> sendChunks tr rawMsg (i + 1) txFullChunks sent')
      else (Inr (), sent))"
  by pat_completeness auto
termination
  by (relation "measure (\<lambda>(tr, rawMsg, i, txFullChunks, sent). txFullChunks - i)") auto

definition signMessage :: "bippath \<Rightarrow> transport \<Rightarrow> string \<Rightarrow> string \<Rightarrow> bool \<Rightarrow> string io" where
  "signMessage bip tr path rawMsgHex displayHex =
     andThen (sync (fromString bip path)) (\<lambda>bipPath.
       let rawMsg = magicBytes @ fromHex rawMsgHex in
       andThen (sync (rawPathOf bipPath displayHex)) (\<lambda>rawPath.
       andThen (send tr 0x80 0x06 0x00 0x00 rawPath) (\<lambda>_.
       let txFullChunks = length rawMsg div maxApduSize in
       andThen (sendChunks tr rawMsg 0 txFullChunks) (\<lambda>_.
       let lastOffset = (length rawMsg div maxApduSize) * maxApduSize;
           lastData = slice rawMsg (int lastOffset) (int (lastOffset + maxApduSize)) in
       andThen (send tr 0x80 0x06 0x81 0x00 lastData) (\<lambda>response.
       sync (Inr (toHex (slice response 0 65))))))))"

definition signMessageHash :: "bippath \<Rightarrow> transport \<Rightarrow> string \<Rightarrow> string \<Rightarrow> string io" where
  "signMessageHash bip tr path rawMsgHex =
     (let rawMsg = fromHex rawMsgHex in
      andThen (sync (pathToBuffer bip path)) (\<lambda>pathBuf.
      andThen (send tr 0x80 0x07 0x00 0x00 pathBuf) (\<lambda>_.
      andThen (send tr 0x80 0x07 0x80 0x00 rawMsg) (\<lambda>response.
      sync (Inr (toHex (slice response 0 65)))))))"

section \<open>Queries without a path\<close>

text \<open>\<open>"" + n\<close> for a number read from a buffer: its decimal digits, or the text
  \<open>undefined\<close> for a read past the end.\<close>

definition digitChar :: "nat \<Rightarrow> char" where
  "digitChar n = ''0123456789'' ! n"

fun decimal :: "nat \<Rightarrow> string" where
  "decimal n = (if n < 10 then [digitChar n] else decimal (n div 10) @ [digitChar (n mod 10)])"

declare decimal.simps [simp del]

definition numberToString :: "int option \<Rightarrow> string" where
  "numberToString v = (case v of None \<Rightarrow> ''undefined'' | Some n \<Rightarrow> decimal (nat n))"

record appConfiguration =
  version :: string
  hash :: string

definition getAppConfiguration :: "transport \<Rightarrow> appConfiguration io" where
  "getAppConfiguration tr =
     andThen (send tr 0x80 0x00 0x00 0x00 []) (\<lambda>response1.
     andThen (send tr 0x80 0x09 0x00 0x00 []) (\<lambda>response2.
     sync (Inr \<lparr>version = numberToString (at response1 (Some 0)) @ ''.''
                          @ numberToString (at response1 (Some 1)) @ ''.''
                          @ numberToString (at response1 (Some 2)),
                hash = toLatin1 (slice response2 0 (-3))\<rparr>)))"

definition getWalletId :: "transport \<Rightarrow> string io" where
  "getWalletId tr =
     andThen (send tr 0x80 0x01 0x00 0x00 []) (\<lambda>response.
     let result = toHex (slice response 0 32) in
     sync (Inr result))"

section \<open>Extended public key\<close>

record extendedPublicKey =
  public_key :: string
  chain_code :: string

definition getWalletExtendedPublicKey :: "bippath \<Rightarrow> transport \<Rightarrow> string \<Rightarrow> extendedPublicKey io" where
  "getWalletExtendedPublicKey bip tr path =
     andThen (sync (fromString bip path)) (\<lambda>bipPath.
     andThen (sync (encodeSegments bipPath)) (\<lambda>data.
     andThen (send tr 0x80 0x04 0x00 0x00 data) (\<lambda>response.
     let publicKeyLength = at response (Some 0);
         chainCodeOffset = plus (Some 2) publicKeyLength;
         chainCodeLength = at response (plus (Some 1) publicKeyLength) in
     sync (Inr \<lparr>public_key = toHex (sliceN response (Some 1) (plus (Some 1) publicKeyLength)),
                chain_code = toHex (sliceN response chainCodeOffset
                                      (plus chainCodeOffset chainCodeLength))\<rparr>))))"

section \<open>The hash of the package blake2b-wasm\<close>

text \<open>
  \<open>Blake2b(digestLength, null, null, personal).update(input).digest("binary")\<close> is BLAKE2b
  (RFC 7693) without key and salt, with a 16-byte personalization: 64-bit words, twelve
  rounds over blocks of 128 bytes.
\<close>

type_synonym u64 = "64 word"

definition IV :: "u64 list" where
  "IV = [0x6a09e667f3bcc908, 0xbb67ae8584caa73b, 0x3c6ef372fe94f82b, 0xa54ff53a5f1d36f1,
         0x510e527fade682d1, 0x9b05688c2b3e6c1f, 0x1f83d9abfb41bd6b, 0x5be0cd19137e2179]"

definition sigmaTable :: "nat list list" where
  "sigmaTable =
    [[0, 1, 2, 3, 4, 5, 6, 7, 8, 9, 10, 11, 12, 13, 14, 15],
     [14, 10, 4, 8, 9, 15, 13, 6, 1, 12, 0, 2, 11, 7, 5, 3],
     [11, 8, 12, 0, 5, 2, 15, 13, 10, 14, 3, 6, 7, 1, 9, 4],
     [7, 9, 3, 1, 13, 12, 11, 14, 2, 6, 5, 10, 4, 0, 15, 8],
     [9, 0, 5, 7, 2, 4, 10, 15, 14, 1, 11, 12, 6, 8, 3, 13],
     [2, 12, 6, 10, 0, 11, 8, 3, 4, 13, 7, 5, 15, 14, 1, 9],
     [12, 5, 1, 15, 14, 13, 4, 10, 0, 7, 6, 3, 9, 2, 8, 11],
     [13, 11, 7, 14, 12, 1, 3, 9, 5, 0, 15, 4, 8, 6, 2, 10],
     [6, 15, 14, 9, 11, 3, 0, 8, 12, 2, 13, 7, 1, 4, 10, 5],
     [10, 2, 8, 4, 7, 6, 1, 5, 15, 11, 9, 14, 3, 12, 13, 0]]"

definition rotr64 :: "nat \<Rightarrow> u64 \<Rightarrow> u64" where
  "rotr64 n x = drop_bit n x OR push_bit (64 - n) x"

definition G :: "u64 list \<Rightarrow> nat \<Rightarrow> nat \<Rightarrow> nat \<Rightarrow> nat \<Rightarrow> u64 \<Rightarrow> u64 \<Rightarrow> u64 list" where
  "G v a b c d x y =
     (let va = v ! a + v ! b + x;
          vd = rotr64 32 (v ! d XOR va);
          vc = v ! c + vd;
          vb = rotr64 24 (v ! b XOR vc);
          va' = va + vb + y;
          vd' = rotr64 16 (vd XOR va');
          vc' = vc + vd';
          vb' = rotr64 63 (vb XOR vc')
      in v[a := va', b := vb', c := vc', d := vd'])"

definition mixRound :: "u64 list \<Rightarrow> nat list \<Rightarrow> u64 list \<Rightarrow> u64 list" where
  "mixRound m s v =
     (let v = G v 0 4 8 12 (m ! (s ! 0)) (m ! (s ! 1));
          v = G v 1 5 9 13 (m ! (s ! 2)) (m ! (s ! 3));
          v = G v 2 6 10 14 (m ! (s ! 4)) (m ! (s ! 5));
          v = G v 3 7 11 15 (m ! (s ! 6)) (m ! (s ! 7));
          v = G v 0 5 10 15 (m ! (s ! 8)) (m ! (s ! 9));
          v = G v 1 6 11 12 (m ! (s ! 10)) (m ! (s ! 11));
          v = G v 2 7 8 13 (m ! (s ! 12)) (m ! (s ! 13));
          v = G v 3 4 9 14 (m ! (s ! 14)) (m ! (s ! 15))
      in v)"

text \<open>Little-endian bytes to a word and back.\<close>

definition le64 :: "buffer \<Rightarrow> u64" where
  "le64 bs = foldr (\<lambda>b acc. ucast b + 256 * acc) bs 0"

definition bytes64 :: "u64 \<Rightarrow> buffer" where
  "bytes64 w = map (\<lambda>i. ucast (drop_bit (8 * i) w)) [0..<8]"

definition blockWords :: "buffer \<Rightarrow> u64 list" where
  "blockWords block = map (\<lambda>i. le64 (take 8 (drop (8 * i) block))) [0..<16]"

text \<open>The compression function: \<open>t\<close> is the number of bytes hashed so far, this block
  included.\<close>

definition F :: "u64 list \<Rightarrow> u64 list \<Rightarrow> nat \<Rightarrow> bool \<Rightarrow> u64 list" where
  "F h m t final =
     (let v = h @ IV;
          v = v[12 := v ! 12 XOR word_of_nat t, 13 := v ! 13 XOR word_of_nat (t div 2 ^ 64)];
          v = (if final then v[14 := NOT (v ! 14)] else v);
          v = fold (\<lambda>r. mixRound m (sigmaTable ! (r mod 10))) [0..<12] v
      in map (\<lambda>i. h ! i XOR v ! i XOR v ! (i + 8)) [0..<8])"

function absorb :: "u64 list \<Rightarrow> nat \<Rightarrow> buffer \<Rightarrow> u64 list" where
  "absorb h t input =
     (if 128 < length input
      then absorb (F h (blockWords (take 128 input)) (t + 128) False) (t + 128) (drop 128 input)
      else F h (blockWords (input @ replicate (128 - length input) 0)) (t + length input) True)"
  by pat_completeness auto
termination
  by (relation "measure (\<lambda>(h, t, input). length input)") auto

declare absorb.simps [simp del]

definition Blake2b :: "nat \<Rightarrow> buffer \<Rightarrow> buffer \<Rightarrow> buffer" where
  "Blake2b digestLength personal input =
     (let h = IV[0 := IV ! 0 XOR 0x01010000 XOR word_of_nat digestLength,
                 6 := IV ! 6 XOR le64 (take 8 personal),
                 7 := IV ! 7 XOR le64 (take 8 (drop 8 personal))]
      in take digestLength (concat (map bytes64 (absorb h 0 input))))"

section \<open>The encoder of the package bech32\<close>

text \<open>
  \<open>bech32m.toWords\<close> and \<open>bech32m.encode\<close>: the package builds the two encoders \<open>bech32\<close>
  and \<open>bech32m\<close> from one body, with the constant that is mixed into the checksum as
  the only difference (1 for bech32, \<open>0x2bc830a3\<close> for bech32m). Its numbers are
  non-negative integers below \<open>2 ^ 32\<close>.
\<close>

definition ALPHABET :: string where
  "ALPHABET = ''qpzry9x8gf2tvdw0s3jn54khce6mua7l''"

definition polymodStep :: "nat \<Rightarrow> nat" where
  "polymodStep pre =
     (let b = pre div 2 ^ 25
      in ((pre mod 2 ^ 25) * 32)
         XOR (if odd b then 0x3b6a57b2 else 0)
         XOR (if odd (b div 2) then 0x26508e6d else 0)
         XOR (if odd (b div 4) then 0x1ea119fa else 0)
         XOR (if odd (b div 8) then 0x3d4233dd else 0)
         XOR (if odd (b div 16) then 0x2a1462b3 else 0))"

definition charCode :: "char \<Rightarrow> nat" where
  "charCode c = of_char c"

definition toLowerCase :: "string \<Rightarrow> string" where
  "toLowerCase s =
     map (\<lambda>c. if 65 \<le> charCode c \<and> charCode c \<le> 90 then char_of (charCode c + 32) else c) s"

definition prefixChk :: "string \<Rightarrow> error + nat" where
  "prefixChk prefix =
     (if list_ex (\<lambda>c. charCode c < 33 \<or> 126 < charCode c) prefix then Inl EncodeError
      else
        let chk = fold (\<lambda>c chk. polymodStep chk XOR (charCode c div 32)) prefix 1;
            chk = polymodStep chk
        in Inr (fold (\<lambda>c chk. polymodStep chk XOR (charCode c mod 32)) prefix chk))"

text \<open>The inner \<open>while (bits >= 5)\<close> of \<open>convert(bytes, 8, 5, true)\<close>.\<close>

function flushBits :: "nat \<Rightarrow> nat \<Rightarrow> nat list \<Rightarrow> nat \<times> nat list" where
  "flushBits v bits result =
     (if 5 \<le> bits
      then flushBits v (bits - 5) (result @ [(v div 2 ^ (bits - 5)) mod 32])
      else (bits, result))"
  by pat_completeness auto
termination
  by (relation "measure (\<lambda>(v, bits, result). bits)") auto

declare flushBits.simps [simp del]

fun convertBits :: "nat list \<Rightarrow> nat \<Rightarrow> nat \<Rightarrow> nat list \<Rightarrow> nat list" where
  "convertBits [] v bits result =
     (if 0 < bits then result @ [(v * 2 ^ (5 - bits)) mod 32] else result)"
| "convertBits (d # rest) v bits result =
     (let v' = ((v * 256) mod 2 ^ 32) OR d
      in case flushBits v' (bits + 8) result of
           (bits', result') \<Rightarrow> convertBits rest v' bits' result')"

definition toWords :: "nat list \<Rightarrow> nat list" where
  "toWords bytes = convertBits bytes 0 0 []"

fun encodeWords :: "nat list \<Rightarrow> nat \<Rightarrow> string \<Rightarrow> error + nat \<times> string" where
  "encodeWords [] chk result = Inr (chk, result)"
| "encodeWords (x # rest) chk result =
     (if x div 32 \<noteq> 0 then Inl EncodeError
      else encodeWords rest (polymodStep chk XOR x) (result @ [ALPHABET ! x]))"

definition encodeWith :: "nat \<Rightarrow> string \<Rightarrow> nat list \<Rightarrow> nat \<Rightarrow> error + string" where
  "encodeWith ENCODING_CONST prefix words LIMIT =
     (let limit = (if LIMIT = 0 then 90 else LIMIT) in
      if limit < length prefix + 7 + length words then Inl EncodeError
      else
        case prefixChk (toLowerCase prefix) of
          Inl e \<Rightarrow> Inl e
        | Inr chk0 \<Rightarrow>
            (case encodeWords words chk0 (toLowerCase prefix @ ''1'') of
               Inl e \<Rightarrow> Inl e
             | Inr (chk1, result) \<Rightarrow>
                 let chk = (polymodStep ^^ 6) chk1 XOR ENCODING_CONST
                 in Inr (result @ map (\<lambda>i. ALPHABET ! ((chk div 2 ^ ((5 - i) * 5)) mod 32)) [0..<6])))"

definition bech32_encode :: "string \<Rightarrow> nat list \<Rightarrow> nat \<Rightarrow> error + string" where
  "bech32_encode = encodeWith 1"

definition bech32m_encode :: "string \<Rightarrow> nat list \<Rightarrow> nat \<Rightarrow> error + string" where
  "bech32m_encode = encodeWith 0x2bc830a3"

section \<open>Public key and address\<close>

definition BECH32_LIMIT :: nat where
  "BECH32_LIMIT = 1023"

definition hashPersonalization :: buffer where
  "hashPersonalization =
     [99, 107, 98, 45, 100, 101, 102, 97, 117, 108, 116, 45, 104, 97, 115, 104]"

text \<open>The SECP256K1_BLAKE160 code hash of \<open>addr_contents\<close>.\<close>

definition codeHash :: "nat list" where
  "codeHash =
     [155, 215, 224, 111, 62, 207, 75,
      224, 242, 252, 210, 24, 139, 35,
      241, 185, 252, 200, 142, 93, 75,
      101, 168, 99, 123, 23, 114, 59,
      189, 163, 204, 232]"

text \<open>\<open>buf.fill(value, offset, end)\<close> with a buffer (or a decoded string) as the value:
  an end past the buffer throws, an empty range leaves the buffer as it is, the value is
  repeated over the range, and an empty value for a range that is not empty throws.\<close>

definition fill :: "buffer \<Rightarrow> buffer \<Rightarrow> nat \<Rightarrow> nat \<Rightarrow> error + buffer" where
  "fill buf val offset end =
     (if length buf < end then Inl OutOfRange
      else if end \<le> offset then Inr buf
      else if val = [] then Inl InvalidArgValue
      else Inr (take offset buf
                @ map (\<lambda>i. val ! (i mod length val)) [0..<end - offset]
                @ drop end buf))"

definition compressPublicKey :: "buffer \<Rightarrow> error + buffer" where
  "compressPublicKey publicKey =
     (let bit = (case at publicKey (Some 64) of None \<Rightarrow> 0 | Some b \<Rightarrow> b mod 2)
      in case fill (alloc 33) (fromHex (if bit \<noteq> 0 then ''03'' else ''02'')) 0 1 of
           Inl e \<Rightarrow> Inl e
         | Inr c \<Rightarrow> fill c (sliceN publicKey (Some 1) (Some 33)) 1 33)"

record walletPublicKey =
  publicKey :: string
  lockArg :: string
  address :: string

definition getWalletPublicKey :: "bippath \<Rightarrow> transport \<Rightarrow> string \<Rightarrow> bool \<Rightarrow> walletPublicKey io" where
  "getWalletPublicKey bip tr path testnet =
     andThen (sync (pathToBuffer bip path)) (\<lambda>pathBuf.
     andThen (send tr 0x80 0x02 0x00 0x00 pathBuf) (\<lambda>response.
     let publicKeyLength = at response (Some 0);
         publicKey = sliceN response (Some 1) (plus (Some 1) publicKeyLength) in
     andThen (sync (compressPublicKey publicKey)) (\<lambda>compressedPublicKey.
     let lockArg = sliceN (Blake2b 32 hashPersonalization compressedPublicKey) (Some 0) (Some 20);
         addr_contents = [0x00] @ codeHash @ [0x01] @ map unat lockArg in
     andThen (sync (bech32m_encode (if testnet then ''ckt'' else ''ckb'')
                      (toWords addr_contents) BECH32_LIMIT)) (\<lambda>addr.
     sync (Inr \<lparr>publicKey = toHex publicKey, lockArg = toHex lockArg, address = addr\<rparr>)))))"

section \<open>Notions of the statements\<close>

text \<open>The four bytes of a segment as \<open>writeUInt32BE\<close> lays them out, most significant
  first.\<close>

definition be32 :: "int \<Rightarrow> buffer" where
  "be32 v =
     [word_of_int (v div 16777216), word_of_int (v div 65536), word_of_int (v div 256),
      word_of_int v]"

text \<open>The EncodedPath of the specification: one byte with the number of segments, then
  each segment as four big-endian bytes.\<close>

definition encodedPath :: "int list \<Rightarrow> buffer" where
  "encodedPath segs = word_of_nat (length segs) # concat (map be32 segs)"

text \<open>The device answers each frame of a list, sent in order after \<open>sent\<close>, with a
  reply.\<close>

fun accepted :: "transport \<Rightarrow> apdu list \<Rightarrow> apdu list \<Rightarrow> bool" where
  "accepted tr sent [] = True"
| "accepted tr sent (f # fs) = (\<not> isl (tr sent f) \<and> accepted tr (sent @ [f]) fs)"

text \<open>The frames that the specification gives for \<open>signMessage\<close>: the init frame, the
  continuation frame of the 230 bytes at chunk \<open>k\<close>, and the final frame with what is left
  after the last full chunk.\<close>

definition continueFrame :: "buffer \<Rightarrow> nat \<Rightarrow> apdu" where
  "continueFrame rawMsg k =
     \<lparr>cla = 0x80, ins = 0x06, p1 = 0x01, p2 = 0x00, data = take 230 (drop (k * 230) rawMsg)\<rparr>"

definition signInitFrame :: "int list \<Rightarrow> bool \<Rightarrow> apdu" where
  "signInitFrame segs displayHex =
     \<lparr>cla = 0x80, ins = 0x06, p1 = 0x00, p2 = 0x00,
      data = (if displayHex then 1 else 0) # encodedPath segs\<rparr>"

definition continueFrames :: "buffer \<Rightarrow> apdu list" where
  "continueFrames rawMsg = map (continueFrame rawMsg) [0..<length rawMsg div 230]"

definition finalFrame :: "buffer \<Rightarrow> apdu" where
  "finalFrame rawMsg =
     \<lparr>cla = 0x80, ins = 0x06, p1 = 0x81, p2 = 0x00,
      data = drop (length rawMsg div 230 * 230) rawMsg\<rparr>"

text \<open>A frame with instruction \<open>i\<close>, P1 and P2 zero, and the EncodedPath as payload.\<close>

definition pathFrame :: "nat \<Rightarrow> int list \<Rightarrow> apdu" where
  "pathFrame i segs = \<lparr>cla = 0x80, ins = i, p1 = 0x00, p2 = 0x00, data = encodedPath segs\<rparr>"

text \<open>Concrete inputs: a path parser known at one path, the segments of
  \<open>44'/144'/0'/0/0\<close>, and a device that answers a final frame with 65 bytes of signature
  and the status word, and any other frame with the status word alone.\<close>

definition bipAt :: "string \<Rightarrow> int list \<Rightarrow> bippath" where
  "bipAt p segs = (\<lambda>path. if path = p then Some segs else None)"

definition exampleSegments :: "int list" where
  "exampleSegments = [0x8000002C, 0x80000090, 0x80000000, 0, 0]"

text \<open>A signature of 65 bytes, and a device that answers a final frame with it and the
  status word, and any other frame with the status word alone.\<close>

definition exampleSignature :: buffer where
  "exampleSignature = replicate 32 0x3C @ replicate 32 0xA7 @ [0x01]"

definition signatureDevice :: transport where
  "signatureDevice sent frame =
     (if p1 frame = 0x81 \<or> p1 frame = 0x80 then Inr (exampleSignature @ [0x90, 0x00])
      else Inr [0x90, 0x00])"

definition signDevice :: transport where
  "signDevice sent frame =
     (if p1 frame = 0x81 \<or> p1 frame = 0x80 then Inr (replicate 65 0x5A @ [0x90, 0x00])
      else Inr [0x90, 0x00])"

text \<open>The number that a run of bytes denotes, most significant byte first.\<close>

definition beValue :: "buffer \<Rightarrow> int" where
  "beValue bs = foldl (\<lambda>acc b. acc * 256 + uint b) 0 bs"

text \<open>The path \<open>0/0/.../0\<close> of \<open>n + 1\<close> segments.\<close>

definition longPath :: "nat \<Rightarrow> string" where
  "longPath n = concat (replicate n ''0/'') @ ''0''"

text \<open>The six characters of a 30-bit checksum, five bits a character, the highest
  first.\<close>

definition checksumChars :: "nat \<Rightarrow> string" where
  "checksumChars chk = map (\<lambda>i. ALPHABET ! ((chk div 2 ^ ((5 - i) * 5)) mod 32)) [0..<6]"

text \<open>The public key that \<open>getWalletPublicKey\<close> and \<open>getWalletExtendedPublicKey\<close> cut out
  of a response: the bytes after the length byte, as many as it says and as there are.\<close>

definition rawPublicKey :: "buffer \<Rightarrow> buffer" where
  "rawPublicKey response = (case response of [] \<Rightarrow> [] | l # rest \<Rightarrow> take (unat l) rest)"

text \<open>The CompressedPublicKey, LockArg, AddressScript and EncodedAddress of the
  specification, for a raw public key of 65 bytes.\<close>

definition compressedKey :: "buffer \<Rightarrow> buffer" where
  "compressedKey key = (if odd (unat (key ! 64)) then 0x03 else 0x02) # take 32 (drop 1 key)"

definition lockArgOf :: "buffer \<Rightarrow> buffer" where
  "lockArgOf compressed = take 20 (Blake2b 32 (fromAscii ''ckb-default-hash'') compressed)"

definition addressScript :: "buffer \<Rightarrow> nat list" where
  "addressScript la = [0x00] @ codeHash @ [0x01] @ map unat la"

text \<open>The checksum of bech32 and bech32m over the words \<open>ws\<close>: \<open>chk0\<close> is the state
  after the prefix, \<open>const\<close> the constant of the encoding. The state after the prefix
  \<open>ckb\<close> is 81608155 and after \<open>ckt\<close> it is 81608141. An EncodedAddress is the prefix,
  the separator \<open>1\<close>, one character for each word of the script, and the six
  characters of the checksum.\<close>

definition checksumOf :: "nat \<Rightarrow> nat \<Rightarrow> nat list \<Rightarrow> nat" where
  "checksumOf const chk0 ws =
     (polymodStep ^^ 6) (fold (\<lambda>x c. polymodStep c XOR x) ws chk0) XOR const"

definition encodedAddress :: "bool \<Rightarrow> buffer \<Rightarrow> string" where
  "encodedAddress testnet la =
     (if testnet then ''ckt'' else ''ckb'') @ ''1''
     @ map (\<lambda>x. ALPHABET ! x) (toWords (addressScript la))
     @ checksumChars (checksumOf 0x2bc830a3 (if testnet then 81608141 else 81608155)
                        (toWords (addressScript la)))"

text \<open>What \<open>getWalletPublicKey\<close> hashes for a key of any length of at least two bytes: the
  parity prefix, with a missing byte 64 counted as even, and the bytes from index 1, at
  most 32 of them, repeated to fill 32 bytes.\<close>

definition filledKey :: "buffer \<Rightarrow> buffer" where
  "filledKey key =
     (if 64 < length key \<and> odd (unat (key ! 64)) then 0x03 else 0x02)
     # map (\<lambda>i. take 32 (drop 1 key) ! (i mod length (take 32 (drop 1 key)))) [0..<32]"

text \<open>The lockArg of the example key.\<close>

definition exampleLockArg :: buffer where
  "exampleLockArg =
    [117, 23, 143, 52, 84, 156, 95, 233, 205, 26, 12, 87, 174, 189, 1, 231, 221, 249, 36,
     158]"

text \<open>The compressed key of the example, the message block it fills, and the state of
  the hash before this block.\<close>

definition exampleCompressed :: buffer where
  "exampleCompressed =
    [2, 121, 190, 102, 126, 249, 220, 187, 172, 85, 160, 98, 149, 206, 135, 11, 7, 2, 155,
     252, 219, 45, 206, 40, 217, 89, 242, 129, 91, 22, 248, 23, 152]"

definition exampleBlock :: "u64 list" where
  "exampleBlock =
    [13536968901253822722, 830859797273269676, 2940338029578617351, 1727155039374563801,
     152, 0, 0, 0, 0, 0, 0, 0, 0, 0, 0, 0]"

definition exampleState :: "u64 list" where
  "exampleState =
    [7640891576939301160, 13503953896175478587, 4354685564936845355, 11912009170470909681,
     5840696475078001361, 11170449401992604703, 9143922219282585096, 3716503719882935564]"

text \<open>The chain code that \<open>getWalletExtendedPublicKey\<close> cuts out of a response: the bytes
  after the second length byte, as many as it says and as there are; nothing when the
  second length byte is missing.\<close>

definition chainCode :: "buffer \<Rightarrow> buffer" where
  "chainCode response =
     (case response of
        [] \<Rightarrow> []
      | l # rest \<Rightarrow>
          if unat l < length rest then take (unat (rest ! unat l)) (drop (Suc (unat l)) rest)
          else [])"

text \<open>Devices for the examples: one that answers every frame with a given reply, and one
  that answers the two frames of \<open>getAppConfiguration\<close> with two given replies.\<close>

definition replyDevice :: "buffer \<Rightarrow> transport" where
  "replyDevice reply sent frame = Inr reply"

definition configDevice :: "buffer \<Rightarrow> buffer \<Rightarrow> transport" where
  "configDevice reply1 reply2 sent frame = (if ins frame = 0x00 then Inr reply1 else Inr reply2)"

text \<open>A raw public key of 65 bytes, \<open>04\<close> then the coordinates X and Y of the
  generator of secp256k1, and the response that carries a key: its length, the key, the
  status word.\<close>

definition exampleKey :: buffer where
  "exampleKey =
    [4, 121, 190, 102, 126, 249, 220, 187, 172, 85, 160, 98, 149, 206, 135, 11, 7, 2, 155,
     252, 219, 45, 206, 40, 217, 89, 242, 129, 91, 22, 248, 23, 152, 72, 58, 218, 119, 38,
     163, 196, 101, 93, 164, 251, 252, 14, 17, 8, 168, 253, 23, 180, 72, 166, 133, 84, 25,
     156, 71, 208, 143, 251, 16, 212, 184]"

definition keyResponse :: "buffer \<Rightarrow> buffer" where
  "keyResponse key = word_of_nat (length key) # key @ [0x90, 0x00]"

text \<open>One part of the version that \<open>getAppConfiguration\<close> prints: the decimal text of the
  byte at an index of the first reply, and the text \<open>undefined\<close> when the reply has no
  such byte.\<close>

definition versionPart :: "buffer \<Rightarrow> nat \<Rightarrow> string" where
  "versionPart response i =
     (if i < length response then decimal (unat (response ! i)) else ''undefined'')"

section \<open>Lemmas\<close>

lemma length_be32 [simp]: "length (be32 v) = 4"
  by (simp add: be32_def)

lemma adjustOffset_nat: "adjustOffset (Some (int k)) len = min k len"
  by (simp add: adjustOffset_def)

lemma slice_nat: "slice buf (int s) (int e) = take (e - s) (drop s buf)"
  by (auto simp: slice_def sliceN_def adjustOffset_nat Let_def min_def)

lemma update4:
  assumes "off + 4 \<le> length buf"
  shows "buf[off := a, off + 1 := b, off + 2 := c, off + 3 := d]
         = take off buf @ [a, b, c, d] @ drop (off + 4) buf"
proof (rule nth_equalityI)
  show "length (buf[off := a, off + 1 := b, off + 2 := c, off + 3 := d])
        = length (take off buf @ [a, b, c, d] @ drop (off + 4) buf)"
    using assms by simp
next
  fix i assume "i < length (buf[off := a, off + 1 := b, off + 2 := c, off + 3 := d])"
  then have i: "i < length buf" by simp
  consider "i < off" | "i = off" | "i = off + 1" | "i = off + 2" | "i = off + 3" | "off + 4 \<le> i"
    by linarith
  then show "buf[off := a, off + 1 := b, off + 2 := c, off + 3 := d] ! i
        = (take off buf @ [a, b, c, d] @ drop (off + 4) buf) ! i"
  proof cases
    case 6
    then obtain j where j: "i = off + 4 + j" by (metis le_Suc_ex)
    show ?thesis using assms i unfolding j by (simp add: nth_append)
  qed (use assms i in \<open>simp_all add: nth_append\<close>)
qed

lemma writeUInt32BE_ok:
  assumes "0 \<le> v" "v \<le> 4294967295" "off + 4 \<le> length buf"
  shows "writeUInt32BE buf v off = Inr (take off buf @ be32 v @ drop (off + 4) buf)"
proof -
  have "writeUInt32BE buf v off
        = Inr (buf[off := word_of_int (v div 16777216), off + 1 := word_of_int (v div 65536),
                   off + 2 := word_of_int (v div 256), off + 3 := word_of_int v])"
    using assms by (simp add: writeUInt32BE_def)
  then show ?thesis
    by (simp only: update4 [OF assms(3)] be32_def append.simps)
qed

lemma forEachSegment_ok:
  assumes "\<forall>s \<in> set segs. 0 \<le> s \<and> s \<le> 4294967295"
      and "base + (index + length segs) * 4 \<le> length buf"
  shows "forEachSegment segs index base buf
         = Inr (take (base + index * 4) buf @ concat (map be32 segs)
                @ drop (base + (index + length segs) * 4) buf)"
  using assms
proof (induction segs arbitrary: index buf)
  case Nil
  then show ?case by simp
next
  case (Cons s segs)
  let ?off = "base + index * 4"
  let ?buf' = "take ?off buf @ be32 s @ drop (?off + 4) buf"
  have w: "writeUInt32BE buf s ?off = Inr ?buf'"
    using Cons.prems by (intro writeUInt32BE_ok) auto
  have len: "length ?buf' = length buf"
    using Cons.prems by simp
  have ih: "forEachSegment segs (Suc index) base ?buf'
         = Inr (take (base + Suc index * 4) ?buf' @ concat (map be32 segs)
                @ drop (base + (Suc index + length segs) * 4) ?buf')"
    using Cons.prems by (intro Cons.IH) (auto simp: len)
  have t: "take (base + Suc index * 4) ?buf' = take ?off buf @ be32 s"
    using Cons.prems by simp
  have d: "drop (base + (Suc index + length segs) * 4) ?buf'
           = drop (base + (index + length (s # segs)) * 4) buf"
    using Cons.prems by (simp add: ac_simps)
  show ?case
    unfolding forEachSegment.simps w sum.case ih t d by simp
qed

lemma length_encodedPath: "length (encodedPath segs) = 1 + 4 * length segs"
  by (induction segs) (simp_all add: encodedPath_def)

lemma writeUInt8_alloc:
  "0 \<le> v \<Longrightarrow> v \<le> 255 \<Longrightarrow> writeUInt8 (alloc (Suc n)) v 0 = Inr (word_of_int v # alloc n)"
  by (simp add: writeUInt8_def alloc_def)

lemma writeInt8_alloc:
  "-128 \<le> v \<Longrightarrow> v \<le> 127 \<Longrightarrow> writeInt8 (alloc (Suc n)) v 0 = Inr (word_of_int v # alloc n)"
  by (simp add: writeInt8_def alloc_def)

lemma writeInt8_second:
  "-128 \<le> v \<Longrightarrow> v \<le> 127 \<Longrightarrow> writeInt8 (a # alloc (Suc n)) v 1 = Inr (a # word_of_int v # alloc n)"
  by (simp add: writeInt8_def alloc_def)

lemma encodeSegments_ok:
  assumes "length segs \<le> 255" and "\<forall>s \<in> set segs. 0 \<le> s \<and> s \<le> 4294967295"
  shows "encodeSegments segs = Inr (encodedPath segs)"
proof -
  let ?buf = "word_of_int (int (length segs)) # alloc (length segs * 4)"
  have w: "writeUInt8 (alloc (1 + length segs * 4)) (int (length segs)) 0 = Inr ?buf"
    using assms(1) writeUInt8_alloc [of "int (length segs)" "length segs * 4"] by simp
  have f: "forEachSegment segs 0 1 ?buf
           = Inr (take (1 + 0 * 4) ?buf @ concat (map be32 segs)
                  @ drop (1 + (0 + length segs) * 4) ?buf)"
    using assms(2) by (intro forEachSegment_ok) (simp_all add: alloc_def)
  show ?thesis
    unfolding encodeSegments_def w sum.case f
    by (simp add: encodedPath_def alloc_def)
qed

lemma encodeSegments_too_long:
  "255 < length segs \<Longrightarrow> encodeSegments segs = Inl OutOfRange"
  by (simp add: encodeSegments_def writeUInt8_def)

lemma rawPathOf_ok:
  assumes "length segs \<le> 127" and "\<forall>s \<in> set segs. 0 \<le> s \<and> s \<le> 4294967295"
  shows "rawPathOf segs displayHex = Inr ((if displayHex then 1 else 0) # encodedPath segs)"
proof -
  let ?flag = "(if displayHex then 1 else 0) :: byte"
  let ?buf = "?flag # word_of_int (int (length segs)) # alloc (length segs * 4)"
  have w0: "writeInt8 (alloc (1 + 1 + length segs * 4)) (if displayHex then 1 else 0) 0
            = Inr (?flag # alloc (Suc (length segs * 4)))"
    using writeInt8_alloc [of "if displayHex then 1 else 0" "Suc (length segs * 4)"] by simp
  have w1: "writeInt8 (?flag # alloc (Suc (length segs * 4))) (int (length segs)) 1 = Inr ?buf"
    using assms(1) by (intro writeInt8_second) simp_all
  have f: "forEachSegment segs 0 2 ?buf
           = Inr (take (2 + 0 * 4) ?buf @ concat (map be32 segs)
                  @ drop (2 + (0 + length segs) * 4) ?buf)"
    using assms(2) by (intro forEachSegment_ok) (simp_all add: alloc_def)
  show ?thesis
    unfolding rawPathOf_def w0 sum.case w1 f
    by (simp add: encodedPath_def alloc_def)
qed

lemma rawPathOf_too_long:
  "127 < length segs \<Longrightarrow> rawPathOf segs displayHex = Inl OutOfRange"
  by (simp add: rawPathOf_def writeInt8_def alloc_def)

lemma sendChunks_trace:
  "accepted tr sent (map (continueFrame rawMsg) [i..<n]) \<Longrightarrow>
   sendChunks tr rawMsg i n sent = (Inr (), sent @ map (continueFrame rawMsg) [i..<n])"
proof (induction tr rawMsg i n sent rule: sendChunks.induct)
  case (1 tr rawMsg i n sent)
  show ?case
  proof (cases "i < n")
    case False
    then show ?thesis by (simp add: sendChunks.simps)
  next
    case True
    let ?f = "continueFrame rawMsg i"
    have up: "[i..<n] = i # [i + 1..<n]"
      using True by (simp add: upt_conv_Cons)
    have sl: "slice rawMsg (int (i * maxApduSize)) (int ((i + 1) * maxApduSize))
              = take 230 (drop (i * 230) rawMsg)"
      unfolding slice_nat maxApduSize_def by simp
    from "1.prems" obtain r where r: "tr sent ?f = Inr r"
      and rest: "accepted tr (sent @ [?f]) (map (continueFrame rawMsg) [i + 1..<n])"
      unfolding up by (cases "tr sent ?f") auto
    have s: "send tr 0x80 0x06 0x01 0x00 (take 230 (drop (i * 230) rawMsg)) sent
             = (Inr r, sent @ [?f])"
      using r by (simp add: send_def continueFrame_def)
    have s': "(Inr r, sent @ [?f])
               = send tr 0x80 0x06 0x01 0x00
                   (slice rawMsg (int (i * maxApduSize)) (int ((i + 1) * maxApduSize))) sent"
      unfolding sl s ..
    have ih: "sendChunks tr rawMsg (i + 1) n (sent @ [?f])
              = (Inr (), (sent @ [?f]) @ map (continueFrame rawMsg) [i + 1..<n])"
      by (rule "1.IH" [OF True s' refl rest])
    have "sendChunks tr rawMsg i n sent
          = (case send tr 0x80 0x06 0x01 0x00
                    (slice rawMsg (int (i * maxApduSize)) (int ((i + 1) * maxApduSize))) sent of
               (Inl e, sent') \<Rightarrow> (Inl e, sent')
             | (Inr _, sent') \<Rightarrow> sendChunks tr rawMsg (i + 1) n sent')"
      by (subst sendChunks.simps) (simp only: True if_True)
    also have "\<dots> = sendChunks tr rawMsg (i + 1) n (sent @ [?f])"
      by (simp only: s' [symmetric] prod.case sum.case)
    also have "\<dots> = (Inr (), sent @ map (continueFrame rawMsg) [i..<n])"
      unfolding ih up by simp
    finally show ?thesis .
  qed
qed

lemma concat_chunks:
  "n * 230 \<le> length xs \<Longrightarrow>
   concat (map (\<lambda>k. take 230 (drop (k * 230) xs)) [0..<n]) = take (n * 230) xs"
proof (induction n)
  case 0
  then show ?case by simp
next
  case (Suc n)
  then have ih: "concat (map (\<lambda>k. take 230 (drop (k * 230) xs)) [0..<n]) = take (n * 230) xs"
    by simp
  have "take (Suc n * 230) xs = take (n * 230 + 230) xs"
    by (simp add: add.commute)
  also have "\<dots> = take (n * 230) xs @ take 230 (drop (n * 230) xs)"
    by (rule take_add)
  finally have t: "take (Suc n * 230) xs = take (n * 230) xs @ take 230 (drop (n * 230) xs)" .
  have "concat (map (\<lambda>k. take 230 (drop (k * 230) xs)) [0..<Suc n])
        = concat (map (\<lambda>k. take 230 (drop (k * 230) xs)) [0..<n]) @ take 230 (drop (n * 230) xs)"
    by simp
  then show ?case
    unfolding ih t .
qed

lemma continue_payloads:
  "concat (map data (continueFrames rawMsg @ [finalFrame rawMsg])) = rawMsg"
proof -
  have "concat (map data (continueFrames rawMsg))
        = concat (map (\<lambda>k. take 230 (drop (k * 230) rawMsg)) [0..<length rawMsg div 230])"
    by (simp add: continueFrames_def continueFrame_def comp_def)
  also have "\<dots> = take (length rawMsg div 230 * 230) rawMsg"
    by (rule concat_chunks) simp
  finally show ?thesis
    by (simp add: finalFrame_def)
qed

lemma continue_lengths:
  "f \<in> set (continueFrames rawMsg) \<Longrightarrow> length (data f) = 230 \<and> p1 f = 1 \<and> ins f = 6"
proof -
  assume "f \<in> set (continueFrames rawMsg)"
  then obtain k where k: "k < length rawMsg div 230" and f: "f = continueFrame rawMsg k"
    by (auto simp: continueFrames_def)
  from k have "(k + 1) * 230 \<le> length rawMsg div 230 * 230"
    by (intro mult_le_mono1) simp
  also have "\<dots> \<le> length rawMsg" by simp
  finally have "k * 230 + 230 \<le> length rawMsg" by simp
  then show ?thesis
    by (simp add: f continueFrame_def)
qed

lemma signMessage_run:
  assumes path: "bip path = Some segs"
    and n: "length segs \<le> 127"
    and rng: "\<forall>s \<in> set segs. 0 \<le> s \<and> s \<le> 4294967295"
    and msg: "rawMsg = magicBytes @ fromHex rawMsgHex"
    and acc: "accepted tr sent (signInitFrame segs displayHex # continueFrames rawMsg)"
    and fin: "tr (sent @ signInitFrame segs displayHex # continueFrames rawMsg) (finalFrame rawMsg)
              = Inr response"
  shows "signMessage bip tr path rawMsgHex displayHex sent
         = (Inr (toHex (take 65 response)),
            sent @ signInitFrame segs displayHex # continueFrames rawMsg @ [finalFrame rawMsg])"
proof -
  let ?init = "signInitFrame segs displayHex"
  let ?conts = "continueFrames rawMsg"
  let ?L = "length rawMsg"
  have rp: "rawPathOf segs displayHex = Inr (data ?init)"
    using rawPathOf_ok [OF n rng] by (simp add: signInitFrame_def)
  from acc obtain r0 where r0: "tr sent ?init = Inr r0"
    and acc': "accepted tr (sent @ [?init]) ?conts"
    by (cases "tr sent ?init") auto
  have s0: "send tr 0x80 0x06 0x00 0x00 (data ?init) sent = (Inr r0, sent @ [?init])"
    using r0 by (simp add: send_def signInitFrame_def)
  have ch: "sendChunks tr rawMsg 0 (?L div maxApduSize) (sent @ [?init])
            = (Inr (), (sent @ [?init]) @ ?conts)"
    using sendChunks_trace [of tr "sent @ [?init]" rawMsg 0 "?L div 230"] acc'
    by (simp add: continueFrames_def maxApduSize_def)
  have last: "slice rawMsg (int (?L div maxApduSize * maxApduSize))
                (int (?L div maxApduSize * maxApduSize + maxApduSize))
              = data (finalFrame rawMsg)"
    unfolding slice_nat maxApduSize_def by (simp add: finalFrame_def)
  have s1: "send tr 0x80 0x06 0x81 0x00 (data (finalFrame rawMsg)) ((sent @ [?init]) @ ?conts)
            = (Inr response, ((sent @ [?init]) @ ?conts) @ [finalFrame rawMsg])"
    using fin by (simp add: send_def finalFrame_def)
  have sl: "slice response 0 65 = take 65 response"
    using slice_nat [of response 0 65] by simp
  show ?thesis
    unfolding signMessage_def andThen_def sync_def fromString_def path option.case Let_def
      prod.case sum.case msg [symmetric] rp s0 ch last s1 sl
    by simp
qed

lemma pathToBuffer_ok:
  assumes "bip path = Some segs" "length segs \<le> 255"
    and "\<forall>s \<in> set segs. 0 \<le> s \<and> s \<le> 4294967295"
  shows "pathToBuffer bip path = Inr (encodedPath segs)"
  using assms by (simp add: pathToBuffer_def fromString_def encodeSegments_ok)

lemma getWalletPublicKey_sent:
  assumes "pathToBuffer bip path = Inr pathBuf"
  shows "snd (getWalletPublicKey bip tr path testnet sent)
         = sent @ [\<lparr>cla = 0x80, ins = 0x02, p1 = 0x00, p2 = 0x00, data = pathBuf\<rparr>]"
  using assms
  by (simp add: getWalletPublicKey_def andThen_def sync_def send_def Let_def
      split: sum.splits prod.splits)

lemma getWalletExtendedPublicKey_sent:
  assumes "bip path = Some segs" "encodeSegments segs = Inr pathBuf"
  shows "snd (getWalletExtendedPublicKey bip tr path sent)
         = sent @ [\<lparr>cla = 0x80, ins = 0x04, p1 = 0x00, p2 = 0x00, data = pathBuf\<rparr>]"
  using assms
  by (simp add: getWalletExtendedPublicKey_def fromString_def andThen_def sync_def send_def Let_def
      split: sum.splits prod.splits)

lemma signMessageHash_sent:
  assumes "pathToBuffer bip path = Inr pathBuf"
  shows "take (length sent + 1) (snd (signMessageHash bip tr path rawMsgHex sent))
         = sent @ [\<lparr>cla = 0x80, ins = 0x07, p1 = 0x00, p2 = 0x00, data = pathBuf\<rparr>]"
  using assms
  by (simp add: signMessageHash_def andThen_def sync_def send_def Let_def
      split: sum.splits prod.splits)

lemma signMessageHash_run:
  assumes path: "bip path = Some segs"
    and n: "length segs \<le> 255"
    and rng: "\<forall>s \<in> set segs. 0 \<le> s \<and> s \<le> 4294967295"
    and r1: "tr sent (pathFrame 0x07 segs) = Inr response1"
    and r2: "tr (sent @ [pathFrame 0x07 segs])
               \<lparr>cla = 0x80, ins = 0x07, p1 = 0x80, p2 = 0x00, data = fromHex rawMsgHex\<rparr>
             = Inr response"
  shows "signMessageHash bip tr path rawMsgHex sent
         = (Inr (toHex (take 65 response)),
            sent @ [pathFrame 0x07 segs,
                    \<lparr>cla = 0x80, ins = 0x07, p1 = 0x80, p2 = 0x00, data = fromHex rawMsgHex\<rparr>])"
proof -
  have sl: "slice response 0 65 = take 65 response"
    using slice_nat [of response 0 65] by simp
  have pb: "pathToBuffer bip path = Inr (encodedPath segs)"
    using path n rng by (rule pathToBuffer_ok [of bip path segs])
  show ?thesis
    using r1 r2
    by (simp add: signMessageHash_def pb andThen_def sync_def
        send_def Let_def sl pathFrame_def)
qed

lemma signMessage_long:
  assumes "bip path = Some segs" "127 < length segs"
  shows "signMessage bip tr path rawMsgHex displayHex sent = (Inl OutOfRange, sent)"
  using assms
  by (simp add: signMessage_def andThen_def sync_def fromString_def rawPathOf_too_long Let_def)

lemma parse_failure:
  assumes "bip path = None"
  shows "pathToBuffer bip path = Inl PathError"
    and "getWalletPublicKey bip tr path testnet sent = (Inl PathError, sent)"
    and "getWalletExtendedPublicKey bip tr path sent = (Inl PathError, sent)"
    and "signMessage bip tr path rawMsgHex displayHex sent = (Inl PathError, sent)"
    and "signMessageHash bip tr path rawMsgHex sent = (Inl PathError, sent)"
  using assms
  by (simp_all add: pathToBuffer_def getWalletPublicKey_def getWalletExtendedPublicKey_def
      signMessage_def signMessageHash_def andThen_def sync_def fromString_def Let_def)

lemma too_many_segments:
  assumes "bip path = Some segs" "255 < length segs"
  shows "pathToBuffer bip path = Inl OutOfRange"
    and "getWalletPublicKey bip tr path testnet sent = (Inl OutOfRange, sent)"
    and "getWalletExtendedPublicKey bip tr path sent = (Inl OutOfRange, sent)"
    and "signMessage bip tr path rawMsgHex displayHex sent = (Inl OutOfRange, sent)"
    and "signMessageHash bip tr path rawMsgHex sent = (Inl OutOfRange, sent)"
  using assms
  by (simp_all add: pathToBuffer_def getWalletPublicKey_def getWalletExtendedPublicKey_def
      signMessage_def signMessageHash_def andThen_def sync_def fromString_def
      encodeSegments_too_long rawPathOf_too_long Let_def)

lemma nth_encodedPath:
  assumes "i < length segs" "j < 4"
  shows "encodedPath segs ! (1 + 4 * i + j) = be32 (segs ! i) ! j"
  using assms
proof (induction segs arbitrary: i)
  case Nil
  then show ?case by simp
next
  case (Cons s segs)
  show ?case
  proof (cases i)
    case 0
    with Cons.prems show ?thesis
      by (simp add: encodedPath_def nth_append)
  next
    case (Suc k)
    with Cons.prems have "encodedPath segs ! (1 + 4 * k + j) = be32 (segs ! k) ! j"
      by (intro Cons.IH) simp_all
    with Suc show ?thesis
      by (simp add: encodedPath_def nth_append)
  qed
qed

lemma hexVal_hexDigit_all: "list_all (\<lambda>n. hexVal (hexDigit n) = Some n) [0..<16]"
  by code_simp

lemma hexVal_hexDigit: "n < 16 \<Longrightarrow> hexVal (hexDigit n) = Some n"
  using hexVal_hexDigit_all by (simp add: list_all_iff)

lemma fromHex_toHex: "fromHex (toHex msg) = msg"
proof (induction msg)
  case Nil
  then show ?case by (simp add: toHex_def)
next
  case (Cons b msg)
  have "unat b < 256"
    using unsigned_less [of b] by simp
  then have hi: "hexVal (hexDigit (unat b div 16)) = Some (unat b div 16)"
    by (intro hexVal_hexDigit) simp
  have lo: "hexVal (hexDigit (unat b mod 16)) = Some (unat b mod 16)"
    by (intro hexVal_hexDigit) simp
  have "(word_of_nat (16 * (unat b div 16) + unat b mod 16) :: byte) = word_of_nat (unat b)"
    by simp
  then have w: "(word_of_nat (16 * (unat b div 16) + unat b mod 16) :: byte) = b"
    by simp
  have "toHex (b # msg) = hexDigit (unat b div 16) # hexDigit (unat b mod 16) # toHex msg"
    by (simp add: toHex_def)
  then show ?case
    by (simp only: fromHex.simps hi lo option.case w Cons.IH)
qed

lemma accepted_signatureDevice: "accepted signatureDevice sent frames"
  by (induction frames arbitrary: sent) (simp_all add: signatureDevice_def)

lemma exampleSignature_hex:
  "toHex (take 65 (exampleSignature @ [0x90, 0x00]))
   = concat (replicate 32 ''3c'') @ concat (replicate 32 ''a7'') @ ''01''"
  by (simp add: exampleSignature_def toHex_def hexDigit_def map_replicate_const)

lemma magicBytes_codes:
  "magicBytes = [78, 101, 114, 118, 111, 115, 32, 77, 101, 115, 115, 97, 103, 101, 58]"
  by (simp add: magicBytes_def fromAscii_def)

lemma fromHex_zeros: "fromHex (replicate (2 * n) CHR ''0'') = replicate n 0"
  by (induction n) (simp_all add: hexVal_def)

lemma accepted_signDevice: "accepted signDevice sent frames"
  by (induction frames arbitrary: sent) (simp_all add: signDevice_def)

lemma be32_value:
  assumes "0 \<le> v" "v \<le> 4294967295"
  shows "beValue (be32 v) = v"
proof -
  define q1 where "q1 = v div 256"
  define q2 where "q2 = q1 div 256"
  define q3 where "q3 = q2 div 256"
  have d2: "v div 65536 = q2"
    using zdiv_zmult2_eq [of 256 v 256] by (simp add: q1_def q2_def)
  have d3: "v div 16777216 = q3"
    using zdiv_zmult2_eq [of 256 v 65536] d2 by (simp add: q3_def)
  have u: "\<And>x. uint (word_of_int x :: byte) = x mod 256"
    by (simp add: uint_word_of_int)
  have q3: "0 \<le> q3" "q3 < 256"
    using assms unfolding d3 [symmetric] by simp_all
  define m0 where "m0 = v mod 256"
  define m1 where "m1 = q1 mod 256"
  define m2 where "m2 = q2 mod 256"
  have s1: "v = q1 * 256 + m0" by (simp add: q1_def m0_def)
  have s2: "q1 = q2 * 256 + m1" by (simp add: q2_def m1_def)
  have s3: "q2 = q3 * 256 + m2" by (simp add: q3_def m2_def)
  have "beValue (be32 v) = ((q3 mod 256 * 256 + m2) * 256 + m1) * 256 + m0"
    unfolding beValue_def be32_def d2 d3 m0_def m1_def m2_def by (simp add: u q1_def)
  also have "q3 mod 256 = q3" using q3 by simp
  finally have "beValue (be32 v) = ((q3 * 256 + m2) * 256 + m1) * 256 + m0" .
  then show ?thesis
    unfolding s3 [symmetric] s2 [symmetric] s1 [symmetric] .
qed

lemma take_drop_segments:
  "i < length segs \<Longrightarrow> take 4 (drop (4 * i) (concat (map be32 segs))) = be32 (segs ! i)"
proof (induction segs arbitrary: i)
  case Nil
  then show ?case by simp
next
  case (Cons s segs)
  show ?case
  proof (cases i)
    case 0
    then show ?thesis by simp
  next
    case (Suc k)
    with Cons.prems have "take 4 (drop (4 * k) (concat (map be32 segs))) = be32 (segs ! k)"
      by (intro Cons.IH) simp
    with Suc show ?thesis by simp
  qed
qed

lemma take_drop_encodedPath:
  "i < length segs \<Longrightarrow> take 4 (drop (1 + 4 * i) (encodedPath segs)) = be32 (segs ! i)"
  using take_drop_segments [of i segs] by (simp add: encodedPath_def)

lemma length_F: "length (F h m t final) = 8"
  by (simp add: F_def Let_def)

lemma length_absorb: "length (absorb h t input) = 8"
proof (induction h t input rule: absorb.induct)
  case (1 h t input)
  show ?case
  proof (cases "128 < length input")
    case True
    with "1.IH" show ?thesis by (subst absorb.simps) simp
  next
    case False
    then show ?thesis by (subst absorb.simps) (simp add: length_F)
  qed
qed

lemma length_concat_bytes64: "length (concat (map bytes64 ws)) = 8 * length ws"
  by (induction ws) (simp_all add: bytes64_def)

lemma length_Blake2b: "length (Blake2b n personal input) = min n 64"
  by (simp add: Blake2b_def Let_def length_concat_bytes64 length_absorb)

lemma div5_split: "(a::nat) div 5 + (a mod 5 + c) div 5 = (a + c) div 5"
proof -
  have e: "a mod 5 + c + a div 5 * 5 = a + c"
    by simp
  have "(a mod 5 + c + a div 5 * 5) div 5 = a div 5 + (a mod 5 + c) div 5"
    by (rule div_mult_self1) simp
  then show ?thesis
    unfolding e by (rule sym)
qed

lemma flushBits_props:
  "flushBits v bits result = (bits', result') \<Longrightarrow>
   bits' = bits mod 5 \<and> length result' = length result + bits div 5
   \<and> (list_all (\<lambda>x. x < 32) result \<longrightarrow> list_all (\<lambda>x. x < 32) result')"
proof (induction v bits result arbitrary: bits' result' rule: flushBits.induct)
  case (1 v bits result)
  show ?case
  proof (cases "5 \<le> bits")
    case True
    let ?r = "result @ [(v div 2 ^ (bits - 5)) mod 32]"
    from "1.prems" True have "flushBits v (bits - 5) ?r = (bits', result')"
      by (subst (asm) flushBits.simps) simp
    from "1.IH" [OF True this]
    have "bits' = (bits - 5) mod 5" "length result' = length ?r + (bits - 5) div 5"
      "list_all (\<lambda>x. x < 32) ?r \<longrightarrow> list_all (\<lambda>x. x < 32) result'"
      by simp_all
    moreover have "(bits - 5) mod 5 = bits mod 5" "Suc ((bits - 5) div 5) = bits div 5"
      using True le_mod_geq [of 5 bits] le_div_geq [of 5 bits] by simp_all
    ultimately show ?thesis by auto
  next
    case False
    with "1.prems" show ?thesis
      by (subst (asm) flushBits.simps) auto
  qed
qed

lemma convertBits_props:
  "bits < 5 \<Longrightarrow>
   length (convertBits bytes v bits result) = length result + (bits + 8 * length bytes + 4) div 5
   \<and> (list_all (\<lambda>x. x < 32) result \<longrightarrow> list_all (\<lambda>x. x < 32) (convertBits bytes v bits result))"
proof (induction bytes arbitrary: v bits result)
  case Nil
  then show ?case by auto
next
  case (Cons d rest)
  let ?v = "((v * 256) mod 2 ^ 32) OR d"
  obtain bits' result' where f: "flushBits ?v (bits + 8) result = (bits', result')"
    by (cases "flushBits ?v (bits + 8) result")
  from flushBits_props [OF f]
  have b: "bits' = (bits + 8) mod 5" and l: "length result' = length result + (bits + 8) div 5"
    and a: "list_all (\<lambda>x. x < 32) result \<longrightarrow> list_all (\<lambda>x. x < 32) result'"
    by simp_all
  have "bits' < 5" using b by simp
  from Cons.IH [OF this, where v = ?v and result = result']
  have ih: "length (convertBits rest ?v bits' result')
            = length result' + (bits' + 8 * length rest + 4) div 5"
    and ia: "list_all (\<lambda>x. x < 32) result' \<longrightarrow> list_all (\<lambda>x. x < 32) (convertBits rest ?v bits' result')"
    by simp_all
  have "(bits + 8) div 5 + ((bits + 8) mod 5 + (8 * length rest + 4)) div 5
        = (bits + 8 + (8 * length rest + 4)) div 5"
    by (rule div5_split)
  then have ar: "(bits + 8) div 5 + ((bits + 8) mod 5 + 8 * length rest + 4) div 5
            = (bits + 8 * length (d # rest) + 4) div 5"
    by (simp add: ac_simps)
  have c: "convertBits (d # rest) v bits result = convertBits rest ?v bits' result'"
    unfolding convertBits.simps Let_def f prod.case ..
  show ?case
    unfolding c using ih ia a l b ar by simp
qed

lemma length_toWords: "length (toWords bytes) = (8 * length bytes + 4) div 5"
  using convertBits_props [of 0 bytes 0 "[]"] by (simp add: toWords_def)

lemma toWords_5bit: "list_all (\<lambda>x. x < 32) (toWords bytes)"
  using convertBits_props [of 0 bytes 0 "[]"] by (simp add: toWords_def)

lemma encodeWords_ok:
  "list_all (\<lambda>x. x < 32) ws \<Longrightarrow>
   encodeWords ws chk result
   = Inr (fold (\<lambda>x c. polymodStep c XOR x) ws chk, result @ map (\<lambda>x. ALPHABET ! x) ws)"
  by (induction ws arbitrary: chk result) simp_all

lemma length_checksumChars: "length (checksumChars chk) = 6"
  by (simp add: checksumChars_def)

lemma prefixChk_ckb: "prefixChk ''ckb'' = Inr 81608155"
  by (simp add: prefixChk_def charCode_def polymodStep_def Let_def cong: let_weak_cong)

lemma prefixChk_ckt: "prefixChk ''ckt'' = Inr 81608141"
  by (simp add: prefixChk_def charCode_def polymodStep_def Let_def cong: let_weak_cong)

lemma sliceN_nat: "sliceN buf (Some (int s)) (Some (int e)) = take (e - s) (drop s buf)"
  using slice_nat [of buf s e] by (simp add: slice_def)

lemma rawPublicKey_eq:
  "sliceN response (Some 1) (plus (Some 1) (at response (Some 0))) = rawPublicKey response"
proof (cases response)
  case Nil
  then show ?thesis
    by (simp add: rawPublicKey_def at_def plus_def sliceN_def adjustOffset_def)
next
  case (Cons l rest)
  have "sliceN response (Some (int 1)) (Some (int (1 + unat l))) = take (unat l) rest"
    unfolding sliceN_nat by (simp add: Cons)
  then show ?thesis
    by (simp add: rawPublicKey_def at_def plus_def Cons)
qed

lemma hashPersonalization_ascii: "hashPersonalization = fromAscii ''ckb-default-hash''"
  by (simp add: hashPersonalization_def fromAscii_def)

lemma compressPublicKey_long:
  assumes "65 \<le> length key"
  shows "compressPublicKey key = Inr (compressedKey key)"
proof -
  have a: "at key (Some 64) = Some (uint (key ! 64))"
    using assms by (simp add: at_def)
  have s: "sliceN key (Some (int 1)) (Some (int 33)) = take 32 (drop 1 key)"
    unfolding sliceN_nat by simp
  have l: "length (take 32 (drop 1 key)) = 32"
    using assms by simp
  have m: "map (\<lambda>i. take 32 (drop 1 key) ! (i mod 32)) [0..<32] = take 32 (drop 1 key)"
    using l by (intro nth_equalityI) simp_all
  have o: "uint (key ! 64) mod 2 \<noteq> 0 \<longleftrightarrow> odd (unat (key ! 64))"
    unfolding uint_nat by presburger
  have f1: "fill (alloc 33) [b] 0 1 = Inr (b # alloc 32)" for b :: byte
    by (simp add: fill_def alloc_def)
  have f2: "fill (b # alloc 32) (take 32 (drop 1 key)) 1 33 = Inr (b # take 32 (drop 1 key))"
    for b :: byte
    using l m by (simp add: fill_def alloc_def)
  have s': "sliceN key (Some 1) (Some 33) = take 32 (drop 1 key)"
    using s by simp
  have h: "fromHex ''03'' = [3]" "fromHex ''02'' = [2]"
    by (simp_all add: hexVal_def)
  show ?thesis
  proof (cases "odd (unat (key ! 64))")
    case True
    then have "(uint (key ! 64) mod 2 \<noteq> 0) = True" "odd (unat (key ! 64)) = True"
      using o by simp_all
    then show ?thesis
      unfolding compressPublicKey_def a option.case Let_def compressedKey_def
      by (simp only: if_True h f1 sum.case s' f2)
  next
    case False
    then have "(uint (key ! 64) mod 2 \<noteq> 0) = False" "odd (unat (key ! 64)) = False"
      using o by simp_all
    then show ?thesis
      unfolding compressPublicKey_def a option.case Let_def compressedKey_def
      by (simp only: if_False h f1 sum.case s' f2)
  qed
qed

lemma compressPublicKey_any:
  assumes "2 \<le> length key"
  shows "compressPublicKey key = Inr (filledKey key)"
proof -
  let ?sub = "take 32 (drop 1 key)"
  have s: "sliceN key (Some (int 1)) (Some (int 33)) = ?sub"
    unfolding sliceN_nat by simp
  have s': "sliceN key (Some 1) (Some 33) = ?sub"
    using s by simp
  have ne: "?sub \<noteq> []"
    using assms by (cases key) auto
  have h: "fromHex ''03'' = [3]" "fromHex ''02'' = [2]"
    by (simp_all add: hexVal_def)
  have f1: "fill (alloc 33) [b] 0 1 = Inr (b # alloc 32)" for b :: byte
    by (simp add: fill_def alloc_def)
  have f2: "fill (b # alloc 32) ?sub 1 33
            = Inr (b # map (\<lambda>i. ?sub ! (i mod length ?sub)) [0..<32])" for b :: byte
    using ne by (simp add: fill_def alloc_def)
  have o: "uint w mod 2 \<noteq> 0 \<longleftrightarrow> odd (unat w)" for w :: byte
    unfolding uint_nat by presburger
  show ?thesis
  proof (cases "64 < length key \<and> odd (unat (key ! 64))")
    case True
    then have a: "at key (Some 64) = Some (uint (key ! 64))"
      by (simp add: at_def)
    from True have "(uint (key ! 64) mod 2 \<noteq> 0) = True"
      "(64 < length key \<and> odd (unat (key ! 64))) = True"
      using o by simp_all
    then show ?thesis
      unfolding compressPublicKey_def a option.case Let_def filledKey_def
      by (simp only: if_True h f1 sum.case s' f2)
  next
    case False
    have "(case at key (Some 64) of None \<Rightarrow> 0 | Some b \<Rightarrow> b mod 2) = 0"
      using False o [of "key ! 64"] by (auto simp: at_def)
    then have "((case at key (Some 64) of None \<Rightarrow> 0 | Some b \<Rightarrow> b mod 2) \<noteq> 0) = False"
      by simp
    moreover from False have "(64 < length key \<and> odd (unat (key ! 64))) = False"
      by simp
    ultimately show ?thesis
      unfolding compressPublicKey_def Let_def filledKey_def
      by (simp only: if_False h f1 sum.case s' f2)
  qed
qed

lemma compressPublicKey_short:
  assumes "length key < 2"
  shows "compressPublicKey key = Inl InvalidArgValue"
proof -
  have s: "sliceN key (Some (int 1)) (Some (int 33)) = take 32 (drop 1 key)"
    unfolding sliceN_nat by simp
  have e: "take 32 (drop 1 key) = []"
    using assms by (cases key) auto
  have s': "sliceN key (Some 1) (Some 33) = []"
    using s e by simp
  have a: "at key (Some 64) = None"
    using assms by (simp add: at_def)
  have h: "fromHex ''02'' = [2]"
    by (simp add: hexVal_def)
  have f1: "fill (alloc 33) [2] 0 1 = Inr (2 # alloc 32)"
    by (simp add: fill_def alloc_def)
  have f2: "fill (2 # alloc 32) [] 1 33 = Inl InvalidArgValue"
    by (simp add: fill_def alloc_def)
  have z: "((0::int) \<noteq> 0) = False" by simp
  show ?thesis
    unfolding compressPublicKey_def a option.case Let_def
    by (simp only: z if_False h f1 sum.case s' f2)
qed

lemma filledKey_long: "65 \<le> length key \<Longrightarrow> filledKey key = compressedKey key"
  using compressPublicKey_any [of key] compressPublicKey_long [of key] by simp

lemma length_lockArgOf: "length (lockArgOf compressed) = 20"
  by (simp add: lockArgOf_def length_Blake2b)

lemma length_codeHash: "length codeHash = 32"
  by (simp add: codeHash_def)

lemma length_addressScript: "length la = 20 \<Longrightarrow> length (addressScript la) = 54"
  by (simp add: addressScript_def length_codeHash)

lemma toLowerCase_prefix: "toLowerCase ''ckb'' = ''ckb''" "toLowerCase ''ckt'' = ''ckt''"
  by (simp_all add: toLowerCase_def charCode_def)

lemma encodeWith_script:
  assumes "length la = 20"
  shows "encodeWith const (if testnet then ''ckt'' else ''ckb'') (toWords (addressScript la)) limit
         = (if (if limit = 0 then 90 else limit) < 97 then Inl EncodeError
            else Inr ((if testnet then ''ckt'' else ''ckb'') @ ''1''
                      @ map (\<lambda>x. ALPHABET ! x) (toWords (addressScript la))
                      @ checksumChars (checksumOf const (if testnet then 81608141 else 81608155)
                                         (toWords (addressScript la)))))"
proof -
  have l: "length (toWords (addressScript la)) = 87"
    by (simp add: length_toWords length_addressScript [OF assms])
  have w: "encodeWords (toWords (addressScript la)) chk result
           = Inr (fold (\<lambda>x c. polymodStep c XOR x) (toWords (addressScript la)) chk,
                  result @ map (\<lambda>x. ALPHABET ! x) (toWords (addressScript la)))" for chk result
    by (rule encodeWords_ok) (rule toWords_5bit)
  show ?thesis
    by (cases testnet)
      (simp_all add: encodeWith_def l toLowerCase_prefix prefixChk_ckb prefixChk_ckt w
        checksumChars_def checksumOf_def Let_def)
qed

lemma bech32m_encode_script:
  assumes "length la = 20"
  shows "bech32m_encode (if testnet then ''ckt'' else ''ckb'') (toWords (addressScript la))
           BECH32_LIMIT = Inr (encodedAddress testnet la)"
  unfolding bech32m_encode_def encodeWith_script [OF assms] BECH32_LIMIT_def encodedAddress_def
  by simp

lemma getWalletPublicKey_run:
  assumes pb: "pathToBuffer bip path = Inr pathBuf"
    and r: "tr sent \<lparr>cla = 0x80, ins = 0x02, p1 = 0x00, p2 = 0x00, data = pathBuf\<rparr> = Inr response"
    and c: "compressPublicKey (rawPublicKey response) = Inr compressed"
  shows "getWalletPublicKey bip tr path testnet sent
         = (Inr \<lparr>publicKey = toHex (rawPublicKey response),
                 lockArg = toHex (lockArgOf compressed),
                 address = encodedAddress testnet (lockArgOf compressed)\<rparr>,
            sent @ [\<lparr>cla = 0x80, ins = 0x02, p1 = 0x00, p2 = 0x00, data = pathBuf\<rparr>])"
proof -
  have s: "send tr 0x80 0x02 0x00 0x00 pathBuf sent
           = (Inr response, sent @ [\<lparr>cla = 0x80, ins = 0x02, p1 = 0x00, p2 = 0x00, data = pathBuf\<rparr>])"
    using r by (simp add: send_def)
  have "sliceN (Blake2b 32 hashPersonalization compressed) (Some (int 0)) (Some (int 20))
        = lockArgOf compressed"
    unfolding sliceN_nat by (simp add: lockArgOf_def hashPersonalization_ascii)
  then have la: "sliceN (Blake2b 32 hashPersonalization compressed) (Some 0) (Some 20)
        = lockArgOf compressed"
    by simp
  have e: "bech32m_encode (if testnet then ''ckt'' else ''ckb'')
             (toWords ([0x00] @ codeHash @ [0x01] @ map unat (lockArgOf compressed))) BECH32_LIMIT
           = Inr (encodedAddress testnet (lockArgOf compressed))"
    using bech32m_encode_script [OF length_lockArgOf, of testnet compressed]
    by (simp add: addressScript_def)
  show ?thesis
    unfolding getWalletPublicKey_def andThen_def sync_def pb prod.case sum.case s Let_def
      rawPublicKey_eq c la e ..
qed

lemma getWalletPublicKey_fill_error:
  assumes pb: "pathToBuffer bip path = Inr pathBuf"
    and r: "tr sent \<lparr>cla = 0x80, ins = 0x02, p1 = 0x00, p2 = 0x00, data = pathBuf\<rparr> = Inr response"
    and c: "compressPublicKey (rawPublicKey response) = Inl e"
  shows "getWalletPublicKey bip tr path testnet sent
         = (Inl e, sent @ [\<lparr>cla = 0x80, ins = 0x02, p1 = 0x00, p2 = 0x00, data = pathBuf\<rparr>])"
proof -
  have s: "send tr 0x80 0x02 0x00 0x00 pathBuf sent
           = (Inr response, sent @ [\<lparr>cla = 0x80, ins = 0x02, p1 = 0x00, p2 = 0x00, data = pathBuf\<rparr>])"
    using r by (simp add: send_def)
  show ?thesis
    unfolding getWalletPublicKey_def andThen_def sync_def pb prod.case sum.case s Let_def
      rawPublicKey_eq c ..
qed

lemma funpow_6: "(f ^^ 6) x = f (f (f (f (f (f x)))))"
  by (simp add: eval_nat_numeral)

lemma upt_6: "[0..<6] = [0, 1, 2, 3, 4, 5]"
  by code_simp

lemma example_words:
  "toWords (addressScript exampleLockArg)
   = [0, 2, 13, 29, 15, 24, 3, 15, 7, 27, 7, 20, 23, 24, 7, 18, 31, 19, 9, 1, 17, 2, 25, 3,
      30, 6, 28, 31, 25, 18, 4, 14, 11, 21, 5, 22, 11, 10, 3, 3, 15, 12, 11, 23, 4, 14, 29,
      29, 20, 15, 6, 14, 16, 0, 11, 21, 2, 30, 7, 19, 8, 21, 4, 28, 11, 31, 20, 28, 26, 6,
      16, 12, 10, 30, 23, 11, 26, 0, 15, 7, 27, 23, 28, 18, 9, 7, 16]"
  by (simp add: toWords_def addressScript_def exampleLockArg_def codeHash_def flushBits.simps
      Let_def cong: let_weak_cong)

lemma example_checksum_ckb:
  "checksumOf 0x2bc830a3 81608155
     [0, 2, 13, 29, 15, 24, 3, 15, 7, 27, 7, 20, 23, 24, 7, 18, 31, 19, 9, 1, 17, 2, 25, 3,
      30, 6, 28, 31, 25, 18, 4, 14, 11, 21, 5, 22, 11, 10, 3, 3, 15, 12, 11, 23, 4, 14, 29,
      29, 20, 15, 6, 14, 16, 0, 11, 21, 2, 30, 7, 19, 8, 21, 4, 28, 11, 31, 20, 28, 26, 6,
      16, 12, 10, 30, 23, 11, 26, 0, 15, 7, 27, 23, 28, 18, 9, 7, 16]
   = 152204279"
  by (simp add: checksumOf_def polymodStep_def funpow_6 Let_def cong: let_weak_cong)

lemma example_checksum_ckt:
  "checksumOf 0x2bc830a3 81608141
     [0, 2, 13, 29, 15, 24, 3, 15, 7, 27, 7, 20, 23, 24, 7, 18, 31, 19, 9, 1, 17, 2, 25, 3,
      30, 6, 28, 31, 25, 18, 4, 14, 11, 21, 5, 22, 11, 10, 3, 3, 15, 12, 11, 23, 4, 14, 29,
      29, 20, 15, 6, 14, 16, 0, 11, 21, 2, 30, 7, 19, 8, 21, 4, 28, 11, 31, 20, 28, 26, 6,
      16, 12, 10, 30, 23, 11, 26, 0, 15, 7, 27, 23, 28, 18, 9, 7, 16]
   = 339201711"
  by (simp add: checksumOf_def polymodStep_def funpow_6 Let_def cong: let_weak_cong)

lemma example_address_ckb:
  "encodedAddress False exampleLockArg
   = ''ckb1qzda0cr08m85hc8jlnfp3zer7xulejywt49kt2rr0vthywaa50xwsqt4z78ng4yutl5u6xsv27ht6q08mhujf8sy3yulh''"
  unfolding encodedAddress_def if_False example_words example_checksum_ckb
  by (simp add: ALPHABET_def checksumChars_def upt_6)

lemma example_address_ckt:
  "encodedAddress True exampleLockArg
   = ''ckt1qzda0cr08m85hc8jlnfp3zer7xulejywt49kt2rr0vthywaa50xwsqt4z78ng4yutl5u6xsv27ht6q08mhujf8s2r0n40''"
  unfolding encodedAddress_def if_True example_words example_checksum_ckt
  by (simp add: ALPHABET_def checksumChars_def upt_6)

lemma rotr64_arith:
  assumes "0 < n" "n < 64"
  shows "rotr64 n x = word_of_nat (unat x div 2 ^ n + (unat x mod 2 ^ n) * 2 ^ (64 - n))"
proof -
  have d: "unat (drop_bit n x) = unat x div 2 ^ n"
    unfolding unat_drop_bit_eq by (simp add: drop_bit_eq_div)
  have "(word_of_nat (unat (drop_bit n x)) :: u64) = drop_bit n x"
    by simp
  then have a: "(word_of_nat (unat x div 2 ^ n) :: u64) = drop_bit n x"
    by (simp only: d)
  have t: "unat (take_bit n x) = unat x mod 2 ^ n"
    unfolding unsigned_take_bit_eq by (simp add: take_bit_eq_mod)
  have "(word_of_nat (unat (take_bit n x)) :: u64) = take_bit n x"
    by simp
  then have b1: "(word_of_nat (unat x mod 2 ^ n) :: u64) = take_bit n x"
    by (simp only: t)
  have b2: "push_bit (64 - n) (take_bit n x) = push_bit (64 - n) x"
    using assms by (auto simp: bit_eq_iff bit_simps)
  have b: "(word_of_nat ((unat x mod 2 ^ n) * 2 ^ (64 - n)) :: u64) = push_bit (64 - n) x"
  proof -
    have "(word_of_nat ((unat x mod 2 ^ n) * 2 ^ (64 - n)) :: u64)
          = word_of_nat (unat x mod 2 ^ n) * 2 ^ (64 - n)"
      by simp
    also have "\<dots> = push_bit (64 - n) (take_bit n x)"
      unfolding b1 by (rule push_bit_eq_mult [symmetric])
    finally show ?thesis
      by (simp only: b2)
  qed
  have "drop_bit n x AND push_bit (64 - n) x = 0"
    using assms by (auto simp: bit_eq_iff bit_simps dest: bit_imp_le_length)
  then have c: "drop_bit n x + push_bit (64 - n) x = drop_bit n x OR push_bit (64 - n) x"
    by (rule disjunctive_add_eq_or)
  show ?thesis
    unfolding rotr64_def of_nat_add a b c ..
qed

lemma upt_16: "[0..<16] = [0, 1, 2, 3, 4, 5, 6, 7, 8, 9, 10, 11, 12, 13, 14, 15]"
  by code_simp

lemma upt_12: "[0..<12] = [0, 1, 2, 3, 4, 5, 6, 7, 8, 9, 10, 11]"
  by code_simp

lemma upt_8: "[0..<8] = [0, 1, 2, 3, 4, 5, 6, 7]"
  by code_simp

lemma replicate_95: "replicate 95 (0::byte) = [0, 0, 0, 0, 0, 0, 0, 0, 0, 0, 0, 0, 0, 0, 0, 0, 0, 0, 0, 0, 0, 0, 0, 0, 0, 0, 0, 0, 0,
     0, 0, 0, 0, 0, 0, 0, 0, 0, 0, 0, 0, 0, 0, 0, 0, 0, 0, 0, 0, 0, 0, 0, 0, 0, 0, 0, 0, 0,
     0, 0, 0, 0, 0, 0, 0, 0, 0, 0, 0, 0, 0, 0, 0, 0, 0, 0, 0, 0, 0, 0, 0, 0, 0, 0, 0, 0, 0,
     0, 0, 0, 0, 0, 0, 0, 0]"
  by code_simp

lemma example_state:
  "IV[0 := IV ! 0 XOR 0x01010000 XOR word_of_nat 32,
      6 := IV ! 6 XOR le64 (take 8 hashPersonalization),
      7 := IV ! 7 XOR le64 (take 8 (drop 8 hashPersonalization))] = exampleState"
  by (simp add: IV_def le64_def hashPersonalization_def exampleState_def)

lemma example_block: "blockWords (exampleCompressed @ replicate 95 0) = exampleBlock"
  by (simp add: blockWords_def le64_def upt_16 replicate_95 exampleCompressed_def
      exampleBlock_def)

lemma example_rounds_1:
  "mixRound exampleBlock
     [11, 8, 12, 0, 5, 2, 15, 13, 10, 14, 3, 6, 7, Suc 0, 9, 4]
     (mixRound exampleBlock
        [14, 10, 4, 8, 9, 15, 13, 6, Suc 0, 12, 0, 2, 11, 7, 5, 3]
        (mixRound exampleBlock
           [0, Suc 0, 2, 3, 4, 5, 6, 7, 8, 9, 10, 11, 12, 13, 14, 15]
           [7640891576939301160, 13503953896175478587, 4354685564936845355,
            11912009170470909681, 5840696475078001361, 11170449401992604703,
            9143922219282585096, 3716503719882935564, 7640891576956012808,
            13503953896175478587, 4354685564936845355, 11912009170470909681,
            5840696475078001392, 11170449401992604703, 16175846103906665108,
            6620516959819538809]))
   = [7909504377765735489, 12187892617695677164, 1710526833851812721, 7743484740996213709,
      4635637771884864590, 6211661053219760552, 17004446315654293505, 10725040906142517112,
      3002502861061771526, 1680952834161485354, 10466091601852116974, 9880157799584022381,
      7500060009838462096, 18050074756837883068, 13653806148072077258, 3003945465830635079]"
  by (simp add: mixRound_def G_def rotr64_arith exampleBlock_def Let_def cong: let_weak_cong)

lemma example_rounds_2:
  "mixRound exampleBlock
     [2, 12, 6, 10, 0, 11, 8, 3, 4, 13, 7, 5, 15, 14, Suc 0, 9]
     (mixRound exampleBlock
        [9, 0, 5, 7, 2, 4, 10, 15, 14, Suc 0, 11, 12, 6, 8, 3, 13]
        (mixRound exampleBlock
           [7, 9, 3, Suc 0, 13, 12, 11, 14, 2, 6, 5, 10, 4, 0, 15, 8]
           [7909504377765735489, 12187892617695677164, 1710526833851812721,
            7743484740996213709, 4635637771884864590, 6211661053219760552,
            17004446315654293505, 10725040906142517112, 3002502861061771526,
            1680952834161485354, 10466091601852116974, 9880157799584022381,
            7500060009838462096, 18050074756837883068, 13653806148072077258,
            3003945465830635079]))
   = [5961035576210371974, 14037725287631885421, 11290554002123536624, 9124498573659722947,
      16698276345274602071, 9859462928949293376, 6468447869378350735, 15809251020951190462,
      8713374856384213213, 2706407235400959829, 16018830898197197557, 8573325437069990435,
      7652602283507894859, 17303351360497027649, 12877398158572763018, 17440867880502666584]"
  by (simp add: mixRound_def G_def rotr64_arith exampleBlock_def Let_def cong: let_weak_cong)

lemma example_rounds_3:
  "mixRound exampleBlock
     [6, 15, 14, 9, 11, 3, 0, 8, 12, 2, 13, 7, Suc 0, 4, 10, 5]
     (mixRound exampleBlock
        [13, 11, 7, 14, 12, Suc 0, 3, 9, 5, 0, 15, 4, 8, 6, 2, 10]
        (mixRound exampleBlock
           [12, 5, Suc 0, 15, 14, 13, 4, 10, 0, 7, 6, 3, 9, 2, 8, 11]
           [5961035576210371974, 14037725287631885421, 11290554002123536624,
            9124498573659722947, 16698276345274602071, 9859462928949293376,
            6468447869378350735, 15809251020951190462, 8713374856384213213,
            2706407235400959829, 16018830898197197557, 8573325437069990435,
            7652602283507894859, 17303351360497027649, 12877398158572763018,
            17440867880502666584]))
   = [17998564464061024971, 3419409440683893840, 5914830755742010643, 7807382892525853363,
      13858000371146352141, 14199356334431344787, 15304249704217546018,
      2802348729344234117, 18282676667854980163, 9894789654140035288, 13303582363857906057,
      10449814582337040091, 14377065215295101091, 12108444036326540349,
      1783184168580723672, 7895247977580508224]"
  by (simp add: mixRound_def G_def rotr64_arith exampleBlock_def Let_def cong: let_weak_cong)

lemma example_rounds_4:
  "mixRound exampleBlock
     [14, 10, 4, 8, 9, 15, 13, 6, Suc 0, 12, 0, 2, 11, 7, 5, 3]
     (mixRound exampleBlock
        [0, Suc 0, 2, 3, 4, 5, 6, 7, 8, 9, 10, 11, 12, 13, 14, 15]
        (mixRound exampleBlock
           [10, 2, 8, 4, 7, 6, Suc 0, 5, 15, 11, 9, 14, 3, 12, 13, 0]
           [17998564464061024971, 3419409440683893840, 5914830755742010643,
            7807382892525853363, 13858000371146352141, 14199356334431344787,
            15304249704217546018, 2802348729344234117, 18282676667854980163,
            9894789654140035288, 13303582363857906057, 10449814582337040091,
            14377065215295101091, 12108444036326540349, 1783184168580723672,
            7895247977580508224]))
   = [7636929812441350018, 11189281201706817988, 5466682469575627701, 15269721592839150892,
      17805905653711989481, 11360028958503783410, 1650616168259105181, 7541699431760084702,
      16910357993363268063, 14352511127617168434, 7805763600934048323,
      15630398709855550968, 5884923781246809380, 3416063773861232851, 15013236359267836946,
      2494111953113322765]"
  by (simp add: mixRound_def G_def rotr64_arith exampleBlock_def Let_def cong: let_weak_cong)

lemma example_F:
  "F exampleState exampleBlock 33 True
   = [16816331419097700213, 16645794254220434125, 2008844507225061853, 12559786232080422437,
     17851820709958851868, 3011726507596769086, 13282290180503962503, 8765709421448357599]"
proof -
  have v0: "(let v = exampleState @ IV;
                 v = v[12 := v ! 12 XOR word_of_nat 33, 13 := v ! 13 XOR word_of_nat (33 div 2 ^ 64)]
             in (if True then v[14 := NOT (v ! 14)] else v))
            = [7640891576939301160, 13503953896175478587, 4354685564936845355,
              11912009170470909681, 5840696475078001361, 11170449401992604703,
              9143922219282585096, 3716503719882935564, 7640891576956012808,
              13503953896175478587, 4354685564936845355, 11912009170470909681,
              5840696475078001392, 11170449401992604703, 16175846103906665108,
              6620516959819538809]"
    by (simp add: IV_def exampleState_def Let_def)
  have rounds: "fold (\<lambda>r. mixRound exampleBlock (sigmaTable ! (r mod 10))) [0..<12]
                  [7640891576939301160, 13503953896175478587, 4354685564936845355,
                   11912009170470909681, 5840696475078001361, 11170449401992604703,
                   9143922219282585096, 3716503719882935564, 7640891576956012808,
                   13503953896175478587, 4354685564936845355, 11912009170470909681,
                   5840696475078001392, 11170449401992604703, 16175846103906665108,
                   6620516959819538809]
                = [7636929812441350018, 11189281201706817988, 5466682469575627701,
                   15269721592839150892, 17805905653711989481, 11360028958503783410,
                   1650616168259105181, 7541699431760084702, 16910357993363268063,
                   14352511127617168434, 7805763600934048323, 15630398709855550968,
                   5884923781246809380, 3416063773861232851, 15013236359267836946,
                   2494111953113322765]"
    by (simp add: upt_12 sigmaTable_def
        example_rounds_1 example_rounds_2 example_rounds_3 example_rounds_4)
  have fin: "map (\<lambda>i. exampleState ! i
                      XOR [7636929812441350018, 11189281201706817988, 5466682469575627701,
                          15269721592839150892, 17805905653711989481, 11360028958503783410,
                          1650616168259105181, 7541699431760084702, 16910357993363268063,
                          14352511127617168434, 7805763600934048323, 15630398709855550968,
                          5884923781246809380, 3416063773861232851, 15013236359267836946,
                          2494111953113322765] ! i
                      XOR [7636929812441350018, 11189281201706817988, 5466682469575627701,
                          15269721592839150892, 17805905653711989481, 11360028958503783410,
                          1650616168259105181, 7541699431760084702, 16910357993363268063,
                          14352511127617168434, 7805763600934048323, 15630398709855550968,
                          5884923781246809380, 3416063773861232851, 15013236359267836946,
                          2494111953113322765] ! (i + 8)) [0..<8]
             = [16816331419097700213, 16645794254220434125, 2008844507225061853,
                12559786232080422437, 17851820709958851868, 3011726507596769086,
                13282290180503962503, 8765709421448357599]"
    by (simp add: exampleState_def upt_8)
  show ?thesis
    unfolding F_def Let_def v0 [unfolded Let_def] rounds fin ..
qed

lemma example_digest:
  "take 32 (concat (map bytes64
     [16816331419097700213, 16645794254220434125, 2008844507225061853, 12559786232080422437,
     17851820709958851868, 3011726507596769086, 13282290180503962503, 8765709421448357599]))
   = [117, 23, 143, 52, 84, 156, 95, 233, 205, 26, 12, 87, 174, 189, 1, 231, 221, 249, 36,
     158, 111, 217, 224, 27, 37, 214, 254, 145, 8, 83, 77, 174]"
  by (simp add: bytes64_def upt_8)

lemma Blake2b_example:
  "Blake2b 32 hashPersonalization exampleCompressed
   = [117, 23, 143, 52, 84, 156, 95, 233, 205, 26, 12, 87, 174, 189, 1, 231, 221, 249, 36,
     158, 111, 217, 224, 27, 37, 214, 254, 145, 8, 83, 77, 174]"
proof -
  have len: "length exampleCompressed = 33"
    by (simp add: exampleCompressed_def)
  have ab: "absorb h 0 exampleCompressed
            = F h (blockWords (exampleCompressed @ replicate 95 0)) 33 True" for h
    unfolding absorb.simps [of h 0 exampleCompressed] len by simp
  show ?thesis
    unfolding Blake2b_def Let_def example_state ab example_block example_F example_digest ..
qed

lemma lockArgOf_example: "lockArgOf exampleCompressed = exampleLockArg"
  unfolding lockArgOf_def hashPersonalization_ascii [symmetric] Blake2b_example
  by (simp add: exampleLockArg_def)

lemma length_toHex: "length (toHex buf) = 2 * length buf"
  by (induction buf) (simp_all add: toHex_def)

lemma uint_less_int: "(uint (w :: byte) < int n) = (unat w < n)"
  unfolding uint_nat by (rule of_nat_less_iff)

lemma nat_Suc_uint: "nat (1 + uint (w :: byte)) = Suc (unat w)"
  unfolding uint_nat by linarith

lemma nat_plus_uint: "nat (k + uint (w :: byte) + uint (v :: byte)) = nat k + unat w + unat v"
  if "0 \<le> k"
  using that unfolding uint_nat by linarith

lemma chainCode_eq:
  "sliceN response (plus (Some 2) (at response (Some 0)))
     (plus (plus (Some 2) (at response (Some 0)))
        (at response (plus (Some 1) (at response (Some 0)))))
   = chainCode response"
proof (cases response)
  case Nil
  then show ?thesis
    by (simp add: chainCode_def at_def plus_def sliceN_def adjustOffset_def)
next
  case (Cons l rest)
  have a0: "at response (Some 0) = Some (uint l)"
    by (simp add: at_def Cons)
  have p1: "plus (Some 1) (Some (uint l)) = Some (1 + uint l)"
    and p2: "plus (Some 2) (Some (uint l)) = Some (2 + uint l)"
    by (simp_all add: plus_def)
  show ?thesis
  proof (cases "unat l < length rest")
    case True
    then have "0 \<le> 1 + uint l \<and> 1 + uint l < int (length response)"
      by (simp add: Cons uint_less_int)
    then have a1: "at response (Some (1 + uint l)) = Some (uint (rest ! unat l))"
      by (simp add: at_def Cons nat_Suc_uint)
    have p3: "plus (Some (2 + uint l)) (Some (uint (rest ! unat l)))
              = Some (2 + uint l + uint (rest ! unat l))"
      by (simp add: plus_def)
    have i1: "2 + uint l = int (2 + unat l)"
      unfolding uint_nat by simp
    have i2: "int (2 + unat l) + uint (rest ! unat l) = int (2 + unat l + unat (rest ! unat l))"
      unfolding uint_nat by simp
    have "sliceN response (Some (int (2 + unat l)))
            (Some (int (2 + unat l + unat (rest ! unat l))))
          = take (unat (rest ! unat l)) (drop (Suc (unat l)) rest)"
      unfolding sliceN_nat by (simp add: Cons)
    then have "sliceN response (Some (2 + uint l)) (Some (2 + uint l + uint (rest ! unat l)))
          = take (unat (rest ! unat l)) (drop (Suc (unat l)) rest)"
      unfolding i1 i2 .
    moreover have "chainCode response = take (unat (rest ! unat l)) (drop (Suc (unat l)) rest)"
      using True by (simp add: chainCode_def Cons)
    ultimately show ?thesis
      unfolding a0 p1 p2 a1 p3 by simp
  next
    case False
    then have "\<not> (1 + uint l < int (length response))"
      by (simp add: Cons uint_less_int)
    then have a1: "at response (Some (1 + uint l)) = None"
      by (simp add: at_def)
    have p3: "plus (Some (2 + uint l)) None = None"
      by (simp add: plus_def)
    have "chainCode response = []"
      using False by (simp add: chainCode_def Cons)
    moreover have "sliceN response (Some (2 + uint l)) None = []"
      by (simp add: sliceN_def adjustOffset_def)
    ultimately show ?thesis
      unfolding a0 p1 p2 a1 p3 by simp
  qed
qed

lemma getWalletId_run:
  assumes "tr sent \<lparr>cla = 0x80, ins = 0x01, p1 = 0x00, p2 = 0x00, data = []\<rparr> = Inr response"
  shows "getWalletId tr sent
         = (Inr (toHex (take 32 response)),
            sent @ [\<lparr>cla = 0x80, ins = 0x01, p1 = 0x00, p2 = 0x00, data = []\<rparr>])"
proof -
  have sl: "slice response 0 32 = take 32 response"
    using slice_nat [of response 0 32] by simp
  show ?thesis
    using assms by (simp add: getWalletId_def andThen_def sync_def send_def Let_def sl)
qed

lemma getWalletExtendedPublicKey_run:
  assumes "bip path = Some segs" "encodeSegments segs = Inr pathBuf"
    and "tr sent \<lparr>cla = 0x80, ins = 0x04, p1 = 0x00, p2 = 0x00, data = pathBuf\<rparr> = Inr response"
  shows "getWalletExtendedPublicKey bip tr path sent
         = (Inr \<lparr>public_key = toHex (rawPublicKey response),
                 chain_code = toHex (chainCode response)\<rparr>,
            sent @ [\<lparr>cla = 0x80, ins = 0x04, p1 = 0x00, p2 = 0x00, data = pathBuf\<rparr>])"
proof -
  have s: "send tr 0x80 0x04 0x00 0x00 pathBuf sent
           = (Inr response, sent @ [\<lparr>cla = 0x80, ins = 0x04, p1 = 0x00, p2 = 0x00, data = pathBuf\<rparr>])"
    using assms(3) by (simp add: send_def)
  show ?thesis
    unfolding getWalletExtendedPublicKey_def andThen_def sync_def fromString_def assms(1)
      option.case prod.case sum.case assms(2) s Let_def rawPublicKey_eq chainCode_eq ..
qed

lemma getAppConfiguration_run:
  assumes "tr sent \<lparr>cla = 0x80, ins = 0x00, p1 = 0x00, p2 = 0x00, data = []\<rparr> = Inr response1"
    and "tr (sent @ [\<lparr>cla = 0x80, ins = 0x00, p1 = 0x00, p2 = 0x00, data = []\<rparr>])
           \<lparr>cla = 0x80, ins = 0x09, p1 = 0x00, p2 = 0x00, data = []\<rparr> = Inr response2"
  shows "getAppConfiguration tr sent
         = (Inr \<lparr>version = numberToString (at response1 (Some 0)) @ ''.''
                           @ numberToString (at response1 (Some 1)) @ ''.''
                           @ numberToString (at response1 (Some 2)),
                 hash = toLatin1 (take (length response2 - 3) response2)\<rparr>,
            sent @ [\<lparr>cla = 0x80, ins = 0x00, p1 = 0x00, p2 = 0x00, data = []\<rparr>,
                    \<lparr>cla = 0x80, ins = 0x09, p1 = 0x00, p2 = 0x00, data = []\<rparr>])"
proof -
  have sl: "slice response2 0 (-3) = take (length response2 - 3) response2"
    by (auto simp: slice_def sliceN_def adjustOffset_def Let_def nat_diff_distrib')
  show ?thesis
    using assms by (simp add: getAppConfiguration_def andThen_def sync_def send_def Let_def sl)
qed

lemma version_digits:
  assumes "3 \<le> length response1"
  shows "numberToString (at response1 (Some 0)) @ ''.''
         @ numberToString (at response1 (Some 1)) @ ''.''
         @ numberToString (at response1 (Some 2))
         = decimal (unat (response1 ! 0)) @ ''.'' @ decimal (unat (response1 ! 1)) @ ''.''
           @ decimal (unat (response1 ! 2))"
proof -
  have "at response1 (Some 0) = Some (uint (response1 ! 0))"
    "at response1 (Some 1) = Some (uint (response1 ! 1))"
    "at response1 (Some 2) = Some (uint (response1 ! 2))"
    using assms by (auto simp: at_def)
  then show ?thesis
    by (simp add: numberToString_def)
qed

lemma example_path:
  "pathToBuffer (bipAt ''44h/144h/0h/0/0'' exampleSegments) ''44h/144h/0h/0/0''
   = Inr (encodedPath exampleSegments)"
  by (rule pathToBuffer_ok) (simp_all add: bipAt_def exampleSegments_def)

lemma example_raw_key: "rawPublicKey (keyResponse exampleKey) = exampleKey"
  by (simp add: rawPublicKey_def keyResponse_def exampleKey_def)

lemma example_compressed: "compressedKey exampleKey = exampleCompressed"
  by (simp add: compressedKey_def exampleKey_def exampleCompressed_def)

lemma example_lockArg_hex: "toHex exampleLockArg = ''75178f34549c5fe9cd1a0c57aebd01e7ddf9249e''"
  by (simp add: toHex_def exampleLockArg_def hexDigit_def)

lemma example_key_hex:
  "toHex exampleKey
   = ''0479be667ef9dcbbac55a06295ce870b07029bfcdb2dce28d959f2815b16f81798483ada7726a3c4655da4fbfc0e1108a8fd17b448a68554199c47d08ffb10d4b8''"
  by (simp add: toHex_def exampleKey_def hexDigit_def)

lemma alphabet_distinct: "distinct ALPHABET"
  by (simp add: ALPHABET_def)

lemma last_checksumChars: "last (checksumChars chk) = ALPHABET ! (chk mod 32)"
  by (simp add: checksumChars_def upt_6)

lemma xor_cancel_nat: "(t::nat) XOR a = t XOR b \<Longrightarrow> a = b"
  by (metis xor.assoc xor_self_eq xor.left_neutral)

lemma checksum_constants_differ: "(c XOR 1) mod 32 \<noteq> (c XOR (0x2bc830a3::nat)) mod 32"
proof
  assume "(c XOR 1) mod 32 = (c XOR (0x2bc830a3::nat)) mod 32"
  then have "take_bit 5 (c XOR 1) = take_bit 5 (c XOR (0x2bc830a3::nat))"
    by (simp add: take_bit_eq_mod)
  then have "take_bit 5 c XOR take_bit 5 (1::nat) = take_bit 5 c XOR take_bit 5 (0x2bc830a3::nat)"
    by (simp only: take_bit_xor)
  then have "take_bit 5 (1::nat) = take_bit 5 (0x2bc830a3::nat)"
    by (rule xor_cancel_nat)
  then show False
    by (simp add: take_bit_eq_mod)
qed

lemma bech32_differs:
  assumes "length la = 20"
  shows "bech32_encode (if testnet then ''ckt'' else ''ckb'') (toWords (addressScript la))
           BECH32_LIMIT \<noteq> Inr (encodedAddress testnet la)"
proof
  let ?ws = "toWords (addressScript la)"
  let ?c = "(polymodStep ^^ 6)
              (fold (\<lambda>x c. polymodStep c XOR x) ?ws (if testnet then 81608141 else 81608155))"
  assume "bech32_encode (if testnet then ''ckt'' else ''ckb'') ?ws BECH32_LIMIT
          = Inr (encodedAddress testnet la)"
  then have "checksumChars (?c XOR 1) = checksumChars (?c XOR 0x2bc830a3)"
    unfolding bech32_encode_def encodeWith_script [OF assms] BECH32_LIMIT_def encodedAddress_def
    by (simp add: checksumOf_def)
  then have "last (checksumChars (?c XOR 1)) = last (checksumChars (?c XOR 0x2bc830a3))"
    by simp
  then have "ALPHABET ! ((?c XOR 1) mod 32) = ALPHABET ! ((?c XOR 0x2bc830a3) mod 32)"
    by (simp only: last_checksumChars)
  moreover have "(?c XOR 1) mod 32 < length ALPHABET" "(?c XOR 0x2bc830a3) mod 32 < length ALPHABET"
    by (simp_all add: ALPHABET_def)
  ultimately have "(?c XOR 1) mod 32 = (?c XOR 0x2bc830a3) mod 32"
    using alphabet_distinct by (simp add: nth_eq_iff_index_eq)
  then show False
    using checksum_constants_differ by blast
qed

lemma encodedAddress_shape:
  "take 4 (encodedAddress False la) = ''ckb1''"
  "take 4 (encodedAddress True la) = ''ckt1''"
  "length la = 20 \<Longrightarrow> length (encodedAddress testnet la) = 97"
  "length la = 20 \<Longrightarrow>
     take 87 (drop 4 (encodedAddress False la)) = take 87 (drop 4 (encodedAddress True la))"
  by (simp_all add: encodedAddress_def length_toWords length_addressScript length_checksumChars)

lemma example_key66: "rawPublicKey (keyResponse (exampleKey @ [0xFF])) = exampleKey @ [0xFF]"
  by (simp add: rawPublicKey_def keyResponse_def exampleKey_def)

lemma example_compressed66: "compressedKey (exampleKey @ [0xFF]) = exampleCompressed"
  by (simp add: compressedKey_def exampleKey_def exampleCompressed_def)

lemma example_key66_hex:
  "toHex (exampleKey @ [0xFF])
   = ''0479be667ef9dcbbac55a06295ce870b07029bfcdb2dce28d959f2815b16f81798483ada7726a3c4655da4fbfc0e1108a8fd17b448a68554199c47d08ffb10d4b8ff''"
  by (simp add: toHex_def exampleKey_def hexDigit_def)

lemma getWalletPublicKey_any:
  assumes "pathToBuffer bip path = Inr pathBuf"
    and "tr sent \<lparr>cla = 0x80, ins = 0x02, p1 = 0x00, p2 = 0x00, data = pathBuf\<rparr> = Inr response"
    and "2 \<le> length (rawPublicKey response)"
  shows "getWalletPublicKey bip tr path testnet sent
         = (Inr \<lparr>publicKey = toHex (rawPublicKey response),
                 lockArg = toHex (lockArgOf (filledKey (rawPublicKey response))),
                 address = encodedAddress testnet (lockArgOf (filledKey (rawPublicKey response)))\<rparr>,
            sent @ [\<lparr>cla = 0x80, ins = 0x02, p1 = 0x00, p2 = 0x00, data = pathBuf\<rparr>])"
  using assms(1,2) compressPublicKey_any [OF assms(3)] by (rule getWalletPublicKey_run)

lemma versionPart_eq:
  "numberToString (at response (Some 0)) = versionPart response 0"
  "numberToString (at response (Some 1)) = versionPart response 1"
  "numberToString (at response (Some 2)) = versionPart response 2"
  by (simp_all add: numberToString_def at_def versionPart_def)

lemma accepted_replyDevice: "accepted (replyDevice reply) sent frames"
  by (induction frames arbitrary: sent) (simp_all add: replyDevice_def)

lemma getWalletPublicKey_short:
  assumes "pathToBuffer bip path = Inr pathBuf"
    and "tr sent \<lparr>cla = 0x80, ins = 0x02, p1 = 0x00, p2 = 0x00, data = pathBuf\<rparr> = Inr response"
    and "length (rawPublicKey response) < 2"
  shows "getWalletPublicKey bip tr path testnet sent
         = (Inl InvalidArgValue,
            sent @ [\<lparr>cla = 0x80, ins = 0x02, p1 = 0x00, p2 = 0x00, data = pathBuf\<rparr>])"
  using assms(1,2) compressPublicKey_short [OF assms(3)] by (rule getWalletPublicKey_fill_error)

section \<open>The claims\<close>

text \<open>
  Claim C1. When the path parses to at most 127 segments and the device answers every
  frame, \<open>signMessage\<close> sends, after what was sent before, the init frame (instruction
  0x06, P1 0x00, the display flag followed by the encoded path) once, then one
  continuation frame (P1 0x01) of exactly 230 bytes for each of the \<open>L div 230\<close> full
  chunks of the prefixed message in order, then one final frame (P1 0x81) with the
  remaining \<open>L mod 230\<close> bytes, which is sent also when it is empty; the payloads of the
  continuation and final frames concatenate to the prefixed message; and the result is the
  hex of the first 65 bytes of the reply to the final frame. The prefix is the 15 ASCII
  codes of \<open>Nervos Message:\<close>, and for an input that is the hex of the bytes \<open>msg\<close> the
  prefixed message is these codes followed by \<open>msg\<close>.
\<close>

theorem signMessage_frames:
  assumes "bip path = Some segs"
    and "length segs \<le> 127"
    and "\<forall>s \<in> set segs. 0 \<le> s \<and> s \<le> 4294967295"
    and "rawMsg = magicBytes @ fromHex rawMsgHex"
    and "accepted tr sent (signInitFrame segs displayHex # continueFrames rawMsg)"
    and "tr (sent @ signInitFrame segs displayHex # continueFrames rawMsg) (finalFrame rawMsg)
         = Inr response"
  shows "signMessage bip tr path rawMsgHex displayHex sent
         = (Inr (toHex (take 65 response)),
            sent @ signInitFrame segs displayHex # continueFrames rawMsg @ [finalFrame rawMsg])
       \<and> magicBytes = fromAscii ''Nervos Message:'' \<and> length magicBytes = 15
       \<and> magicBytes = [78, 101, 114, 118, 111, 115, 32, 77, 101, 115, 115, 97, 103, 101, 58]
       \<and> (rawMsgHex = toHex msg \<longrightarrow>
            rawMsg = [78, 101, 114, 118, 111, 115, 32, 77, 101, 115, 115, 97, 103, 101, 58] @ msg)
       \<and> length (continueFrames rawMsg) = length rawMsg div 230
       \<and> (\<forall>f \<in> set (continueFrames rawMsg). length (data f) = 230 \<and> p1 f = 0x01 \<and> ins f = 0x06)
       \<and> length (data (finalFrame rawMsg)) = length rawMsg mod 230
       \<and> concat (map data (continueFrames rawMsg @ [finalFrame rawMsg])) = rawMsg"
proof -
  have run: "signMessage bip tr path rawMsgHex displayHex sent
         = (Inr (toHex (take 65 response)),
            sent @ signInitFrame segs displayHex # continueFrames rawMsg @ [finalFrame rawMsg])"
    using assms by (rule signMessage_run)
  have fin: "length (data (finalFrame rawMsg)) = length rawMsg mod 230"
    unfolding finalFrame_def by (simp add: modulo_nat_def)
  have magic: "length magicBytes = 15"
    by (simp add: magicBytes_def fromAscii_def)
  have decoded: "rawMsgHex = toHex msg \<longrightarrow>
      rawMsg = [78, 101, 114, 118, 111, 115, 32, 77, 101, 115, 115, 97, 103, 101, 58] @ msg"
    unfolding assms(4) magicBytes_codes by (simp add: fromHex_toHex)
  have conts: "length (continueFrames rawMsg) = length rawMsg div 230"
    by (simp add: continueFrames_def)
  have def: "magicBytes = fromAscii ''Nervos Message:''"
    by (rule magicBytes_def)
  show ?thesis
    using run fin magic decoded conts def magicBytes_codes continue_lengths [of _ rawMsg]
      continue_payloads [of rawMsg]
    by blast
qed

theorem signMessage_frames_witness:
  "signMessage (bipAt ''44h/144h/0h/0/0'' exampleSegments) signatureDevice ''44h/144h/0h/0/0''
     ''CAfe0142'' True []
   = (Inr (concat (replicate 32 ''3c'') @ concat (replicate 32 ''a7'') @ ''01''),
      [\<lparr>cla = 0x80, ins = 0x06, p1 = 0x00, p2 = 0x00,
        data = [1, 5, 0x80, 0, 0, 0x2C, 0x80, 0, 0, 0x90, 0x80, 0, 0, 0, 0, 0, 0, 0, 0, 0, 0, 0]\<rparr>,
       \<lparr>cla = 0x80, ins = 0x06, p1 = 0x81, p2 = 0x00,
        data = [78, 101, 114, 118, 111, 115, 32, 77, 101, 115, 115, 97, 103, 101, 58,
                0xCA, 0xFE, 0x01, 0x42]\<rparr>])
   \<and> signMessage (bipAt ''44h/144h/0h/0/0'' exampleSegments) signatureDevice ''44h/144h/0h/0/0''
     (replicate 430 CHR ''0'') False []
   = (Inr (concat (replicate 32 ''3c'') @ concat (replicate 32 ''a7'') @ ''01''),
      [\<lparr>cla = 0x80, ins = 0x06, p1 = 0x00, p2 = 0x00,
        data = [0, 5, 0x80, 0, 0, 0x2C, 0x80, 0, 0, 0x90, 0x80, 0, 0, 0, 0, 0, 0, 0, 0, 0, 0, 0]\<rparr>,
       \<lparr>cla = 0x80, ins = 0x06, p1 = 0x01, p2 = 0x00,
        data = [78, 101, 114, 118, 111, 115, 32, 77, 101, 115, 115, 97, 103, 101, 58]
               @ replicate 215 0\<rparr>,
       \<lparr>cla = 0x80, ins = 0x06, p1 = 0x81, p2 = 0x00, data = []\<rparr>])"
proof -
  let ?tag = "[78, 101, 114, 118, 111, 115, 32, 77, 101, 115, 115, 97, 103, 101, 58] :: buffer"
  let ?short = "?tag @ [0xCA, 0xFE, 0x01, 0x42]"
  let ?long = "?tag @ replicate 215 0"
  let ?bip = "bipAt ''44h/144h/0h/0/0'' exampleSegments"
  let ?response = "exampleSignature @ [0x90, 0x00]"
  have init: "signInitFrame exampleSegments d
              = \<lparr>cla = 0x80, ins = 0x06, p1 = 0x00, p2 = 0x00,
                 data = [if d then 1 else 0, 5, 0x80, 0, 0, 0x2C, 0x80, 0, 0, 0x90, 0x80, 0, 0, 0,
                         0, 0, 0, 0, 0, 0, 0, 0]\<rparr>" for d
    by (simp add: signInitFrame_def encodedPath_def exampleSegments_def be32_def)
  have conts1: "continueFrames ?short = []"
    by (simp add: continueFrames_def)
  have fin1: "finalFrame ?short
              = \<lparr>cla = 0x80, ins = 0x06, p1 = 0x81, p2 = 0x00, data = ?short\<rparr>"
    by (simp add: finalFrame_def)
  have conts2: "continueFrames ?long
                = [\<lparr>cla = 0x80, ins = 0x06, p1 = 0x01, p2 = 0x00, data = ?long\<rparr>]"
    by (simp add: continueFrames_def continueFrame_def)
  have fin2: "finalFrame ?long = \<lparr>cla = 0x80, ins = 0x06, p1 = 0x81, p2 = 0x00, data = []\<rparr>"
    by (simp add: finalFrame_def)
  have h1: "?bip ''44h/144h/0h/0/0'' = Some exampleSegments"
    by (simp add: bipAt_def)
  have h2: "length exampleSegments \<le> 127"
    by (simp add: exampleSegments_def)
  have h3: "\<forall>s \<in> set exampleSegments. 0 \<le> s \<and> s \<le> 4294967295"
    by (simp add: exampleSegments_def)
  have m1: "?short = magicBytes @ fromHex ''CAfe0142''"
    by (simp add: magicBytes_codes hexVal_def)
  have m2: "?long = magicBytes @ fromHex (replicate 430 CHR ''0'')"
    using fromHex_zeros [of 215] by (simp add: magicBytes_codes)
  have a1: "accepted signatureDevice [] (signInitFrame exampleSegments True # continueFrames ?short)"
    by (rule accepted_signatureDevice)
  have a2: "accepted signatureDevice [] (signInitFrame exampleSegments False # continueFrames ?long)"
    by (rule accepted_signatureDevice)
  have r1: "signatureDevice ([] @ signInitFrame exampleSegments True # continueFrames ?short)
              (finalFrame ?short) = Inr ?response"
    by (simp add: signatureDevice_def finalFrame_def)
  have r2: "signatureDevice ([] @ signInitFrame exampleSegments False # continueFrames ?long)
              (finalFrame ?long) = Inr ?response"
    by (simp add: signatureDevice_def finalFrame_def)
  from signMessage_frames [of ?bip "''44h/144h/0h/0/0''" exampleSegments ?short
      "''CAfe0142''" signatureDevice "[]" True ?response, OF h1 h2 h3 m1 a1 r1]
  have 1: "signMessage ?bip signatureDevice ''44h/144h/0h/0/0'' ''CAfe0142'' True []
        = (Inr (toHex (take 65 ?response)),
           [] @ signInitFrame exampleSegments True # continueFrames ?short @ [finalFrame ?short])"
    by (rule conjunct1)
  from signMessage_frames [of ?bip "''44h/144h/0h/0/0''" exampleSegments ?long
      "replicate 430 CHR ''0''" signatureDevice "[]" False ?response, OF h1 h2 h3 m2 a2 r2]
  have 2: "signMessage ?bip signatureDevice ''44h/144h/0h/0/0'' (replicate 430 CHR ''0'') False []
        = (Inr (toHex (take 65 ?response)),
           [] @ signInitFrame exampleSegments False # continueFrames ?long @ [finalFrame ?long])"
    by (rule conjunct1)
  show ?thesis
    using 1 2 unfolding exampleSignature_hex conts1 fin1 conts2 fin2 init by simp
qed

text \<open>
  Claim C5. A path that parses to at most 255 segments, each an unsigned 32-bit number, is
  encoded by \<open>pathToBuffer\<close> as \<open>1 + 4 * n\<close> bytes: the count \<open>n\<close>, then every segment
  as four big-endian bytes in order. A path that does not parse, or that parses to more
  than 255 segments, makes \<open>pathToBuffer\<close> and every operation that takes a path fail
  with no frame sent: with the parser's error in the first case, and with the range error
  of the one-byte write of the count in the second.
\<close>

theorem path_encoding:
  "(bip path = Some segs \<and> length segs \<le> 255 \<and> (\<forall>s \<in> set segs. 0 \<le> s \<and> s \<le> 4294967295) \<longrightarrow>
      pathToBuffer bip path = Inr (encodedPath segs)
      \<and> length (encodedPath segs) = 1 + 4 * length segs
      \<and> unat (hd (encodedPath segs)) = length segs
      \<and> (\<forall>i < length segs.
            beValue (take 4 (drop (1 + 4 * i) (encodedPath segs))) = segs ! i))
   \<and> (bip path = None \<longrightarrow>
      pathToBuffer bip path = Inl PathError
      \<and> getWalletPublicKey bip tr path testnet sent = (Inl PathError, sent)
      \<and> getWalletExtendedPublicKey bip tr path sent = (Inl PathError, sent)
      \<and> signMessage bip tr path rawMsgHex displayHex sent = (Inl PathError, sent)
      \<and> signMessageHash bip tr path rawMsgHex sent = (Inl PathError, sent))
   \<and> (bip path = Some segs \<and> 255 < length segs \<longrightarrow>
      pathToBuffer bip path = Inl OutOfRange
      \<and> getWalletPublicKey bip tr path testnet sent = (Inl OutOfRange, sent)
      \<and> getWalletExtendedPublicKey bip tr path sent = (Inl OutOfRange, sent)
      \<and> signMessage bip tr path rawMsgHex displayHex sent = (Inl OutOfRange, sent)
      \<and> signMessageHash bip tr path rawMsgHex sent = (Inl OutOfRange, sent))"
proof (intro conjI impI)
  assume a: "bip path = Some segs \<and> length segs \<le> 255
             \<and> (\<forall>s \<in> set segs. 0 \<le> s \<and> s \<le> 4294967295)"
  then show "pathToBuffer bip path = Inr (encodedPath segs)"
    by (intro pathToBuffer_ok) simp_all
  show "length (encodedPath segs) = 1 + 4 * length segs"
    by (rule length_encodedPath)
  from a show "unat (hd (encodedPath segs)) = length segs"
    by (simp add: encodedPath_def unat_of_nat)
  show "\<forall>i < length segs.
      beValue (take 4 (drop (1 + 4 * i) (encodedPath segs))) = segs ! i"
  proof (intro allI impI)
    fix i assume i: "i < length segs"
    with a have "0 \<le> segs ! i" "segs ! i \<le> 4294967295"
      by simp_all
    then show "beValue (take 4 (drop (1 + 4 * i) (encodedPath segs))) = segs ! i"
      unfolding take_drop_encodedPath [OF i] by (rule be32_value)
  qed
qed (simp_all add: parse_failure too_many_segments)

theorem path_encoding_witness:
  "pathToBuffer (bipAt ''44h/144h/0h/0/0'' exampleSegments) ''44h/144h/0h/0/0''
     = Inr [5, 0x80, 0, 0, 0x2C, 0x80, 0, 0, 0x90, 0x80, 0, 0, 0, 0, 0, 0, 0, 0, 0, 0, 0]
   \<and> getWalletPublicKey (bipAt ''44h/144h/0h/0/0'' exampleSegments) signDevice ''44h//0'' False []
     = (Inl PathError, [])
   \<and> signMessageHash (bipAt (longPath 255) (replicate 256 0)) signDevice (longPath 255) ''00'' []
     = (Inl OutOfRange, [])"
proof -
  have 1: "bipAt ''44h/144h/0h/0/0'' exampleSegments ''44h/144h/0h/0/0'' = Some exampleSegments
           \<and> length exampleSegments \<le> 255
           \<and> (\<forall>s \<in> set exampleSegments. 0 \<le> s \<and> s \<le> 4294967295)"
    by (simp add: bipAt_def exampleSegments_def)
  have 2: "bipAt ''44h/144h/0h/0/0'' exampleSegments ''44h//0'' = None"
    by (simp add: bipAt_def)
  have 3: "bipAt (longPath 255) (replicate 256 0) (longPath 255) = Some (replicate 256 0)
           \<and> 255 < length (replicate 256 (0::int))"
    by (simp add: bipAt_def)
  have e: "encodedPath exampleSegments
           = [5, 0x80, 0, 0, 0x2C, 0x80, 0, 0, 0x90, 0x80, 0, 0, 0, 0, 0, 0, 0, 0, 0, 0, 0]"
    by (simp add: encodedPath_def exampleSegments_def be32_def)
  show ?thesis
    using 1 2 3 e
      path_encoding [of "bipAt ''44h/144h/0h/0/0'' exampleSegments" "''44h/144h/0h/0/0''"
        exampleSegments]
      path_encoding [of "bipAt ''44h/144h/0h/0/0'' exampleSegments" "''44h//0''" _ signDevice
        False "[]"]
      path_encoding [of "bipAt (longPath 255) (replicate 256 0)" "longPath 255"
        "replicate 256 0" signDevice _ "[]" "''00''"]
    by simp
qed

text \<open>
  Claim C8. For a path that parses to at most 255 segments and a device that answers,
  \<open>signMessageHash\<close> sends exactly two frames and does not chunk: the init frame
  (instruction 0x07, P1 0x00) with the encoded path, then the final frame (instruction
  0x07, P1 0x80) with the whole hex-decoded digest; it returns the hex of the first 65
  bytes of the second reply. For an input that is the hex of the bytes \<open>digest\<close> the
  payload of the final frame is \<open>digest\<close> itself.
\<close>

theorem signMessageHash_exchanges:
  assumes "bip path = Some segs"
    and "length segs \<le> 255"
    and "\<forall>s \<in> set segs. 0 \<le> s \<and> s \<le> 4294967295"
    and "tr sent (pathFrame 0x07 segs) = Inr response1"
    and "tr (sent @ [pathFrame 0x07 segs])
           \<lparr>cla = 0x80, ins = 0x07, p1 = 0x80, p2 = 0x00, data = fromHex rawMsgHex\<rparr>
         = Inr response"
  shows "signMessageHash bip tr path rawMsgHex sent
         = (Inr (toHex (take 65 response)),
            sent @ [pathFrame 0x07 segs,
                    \<lparr>cla = 0x80, ins = 0x07, p1 = 0x80, p2 = 0x00, data = fromHex rawMsgHex\<rparr>])
       \<and> (rawMsgHex = toHex digest \<longrightarrow>
            signMessageHash bip tr path rawMsgHex sent
            = (Inr (toHex (take 65 response)),
               sent @ [pathFrame 0x07 segs,
                       \<lparr>cla = 0x80, ins = 0x07, p1 = 0x80, p2 = 0x00, data = digest\<rparr>]))"
proof -
  have run: "signMessageHash bip tr path rawMsgHex sent
         = (Inr (toHex (take 65 response)),
            sent @ [pathFrame 0x07 segs,
                    \<lparr>cla = 0x80, ins = 0x07, p1 = 0x80, p2 = 0x00, data = fromHex rawMsgHex\<rparr>])"
    using assms by (rule signMessageHash_run)
  have "fromHex rawMsgHex = digest" if "rawMsgHex = toHex digest"
    unfolding that by (rule fromHex_toHex)
  then have "rawMsgHex = toHex digest \<longrightarrow>
            signMessageHash bip tr path rawMsgHex sent
            = (Inr (toHex (take 65 response)),
               sent @ [pathFrame 0x07 segs,
                       \<lparr>cla = 0x80, ins = 0x07, p1 = 0x80, p2 = 0x00, data = digest\<rparr>])"
    using run by metis
  with run show ?thesis
    by (rule conjI)
qed

theorem signMessageHash_exchanges_witness:
  "signMessageHash (bipAt ''44h/144h/0h/0/0'' exampleSegments) signatureDevice
     ''44h/144h/0h/0/0'' ''9F86d081884c7d659A2feaa0c55ad015a3bf4f1b2b0b822cd15d6c15b0f00a08'' []
   = (Inr (concat (replicate 32 ''3c'') @ concat (replicate 32 ''a7'') @ ''01''),
      [\<lparr>cla = 0x80, ins = 0x07, p1 = 0x00, p2 = 0x00,
        data = [5, 0x80, 0, 0, 0x2C, 0x80, 0, 0, 0x90, 0x80, 0, 0, 0, 0, 0, 0, 0, 0, 0, 0, 0]\<rparr>,
       \<lparr>cla = 0x80, ins = 0x07, p1 = 0x80, p2 = 0x00,
        data = [0x9F, 0x86, 0xD0, 0x81, 0x88, 0x4C, 0x7D, 0x65,
                0x9A, 0x2F, 0xEA, 0xA0, 0xC5, 0x5A, 0xD0, 0x15,
                0xA3, 0xBF, 0x4F, 0x1B, 0x2B, 0x0B, 0x82, 0x2C,
                0xD1, 0x5D, 0x6C, 0x15, 0xB0, 0xF0, 0x0A, 0x08]\<rparr>])"
proof -
  let ?bip = "bipAt ''44h/144h/0h/0/0'' exampleSegments"
  let ?response = "exampleSignature @ [0x90, 0x00]"
  let ?digest = "[0x9F, 0x86, 0xD0, 0x81, 0x88, 0x4C, 0x7D, 0x65,
                  0x9A, 0x2F, 0xEA, 0xA0, 0xC5, 0x5A, 0xD0, 0x15,
                  0xA3, 0xBF, 0x4F, 0x1B, 0x2B, 0x0B, 0x82, 0x2C,
                  0xD1, 0x5D, 0x6C, 0x15, 0xB0, 0xF0, 0x0A, 0x08] :: buffer"
  have hex: "fromHex ''9F86d081884c7d659A2feaa0c55ad015a3bf4f1b2b0b822cd15d6c15b0f00a08'' = ?digest"
    by (simp add: hexVal_def)
  have init: "pathFrame 0x07 exampleSegments
              = \<lparr>cla = 0x80, ins = 0x07, p1 = 0x00, p2 = 0x00,
                 data = [5, 0x80, 0, 0, 0x2C, 0x80, 0, 0, 0x90, 0x80, 0, 0, 0, 0, 0, 0, 0,
                         0, 0, 0, 0]\<rparr>"
    by (simp add: pathFrame_def encodedPath_def exampleSegments_def be32_def)
  have h1: "?bip ''44h/144h/0h/0/0'' = Some exampleSegments"
    by (simp add: bipAt_def)
  have h2: "length exampleSegments \<le> 255"
    by (simp add: exampleSegments_def)
  have h3: "\<forall>s \<in> set exampleSegments. 0 \<le> s \<and> s \<le> 4294967295"
    by (simp add: exampleSegments_def)
  have h4: "signatureDevice [] (pathFrame 0x07 exampleSegments) = Inr [0x90, 0x00]"
    by (simp add: signatureDevice_def pathFrame_def)
  have h5: "signatureDevice ([] @ [pathFrame 0x07 exampleSegments])
              \<lparr>cla = 0x80, ins = 0x07, p1 = 0x80, p2 = 0x00, data = fromHex ''9F86d081884c7d659A2feaa0c55ad015a3bf4f1b2b0b822cd15d6c15b0f00a08''\<rparr>
            = Inr ?response"
    by (simp add: signatureDevice_def)
  from signMessageHash_exchanges [of ?bip "''44h/144h/0h/0/0''" exampleSegments signatureDevice
      "[]" "[0x90, 0x00]" "''9F86d081884c7d659A2feaa0c55ad015a3bf4f1b2b0b822cd15d6c15b0f00a08''" ?response, OF h1 h2 h3 h4 h5]
  have "signMessageHash ?bip signatureDevice ''44h/144h/0h/0/0'' ''9F86d081884c7d659A2feaa0c55ad015a3bf4f1b2b0b822cd15d6c15b0f00a08'' []
        = (Inr (toHex (take 65 ?response)),
           [] @ [pathFrame 0x07 exampleSegments,
                 \<lparr>cla = 0x80, ins = 0x07, p1 = 0x80, p2 = 0x00, data = fromHex ''9F86d081884c7d659A2feaa0c55ad015a3bf4f1b2b0b822cd15d6c15b0f00a08''\<rparr>])"
    by (rule conjunct1)
  then show ?thesis
    unfolding exampleSignature_hex hex init by simp
qed

text \<open>
  Claim C10. For a path of 128 to 255 segments \<open>signMessage\<close> fails with the range error
  of \<open>writeInt8\<close>, which refuses the count, before any frame is sent; \<open>pathToBuffer\<close>
  encodes the same path, and the other operations that take a path send their first
  frame with it.
\<close>

theorem signMessage_rejects_long_paths:
  assumes "bip path = Some segs"
    and "128 \<le> length segs"
    and "length segs \<le> 255"
    and "\<forall>s \<in> set segs. 0 \<le> s \<and> s \<le> 4294967295"
  shows "signMessage bip tr path rawMsgHex displayHex sent = (Inl OutOfRange, sent)
       \<and> writeInt8 buf (int (length segs)) 1 = Inl OutOfRange
       \<and> pathToBuffer bip path = Inr (encodedPath segs)
       \<and> snd (getWalletPublicKey bip tr path testnet sent) = sent @ [pathFrame 0x02 segs]
       \<and> snd (getWalletExtendedPublicKey bip tr path sent) = sent @ [pathFrame 0x04 segs]
       \<and> take (length sent + 1) (snd (signMessageHash bip tr path digestHex sent))
           = sent @ [pathFrame 0x07 segs]"
proof -
  have pb: "pathToBuffer bip path = Inr (encodedPath segs)"
    using assms(1,3,4) by (rule pathToBuffer_ok [of bip path segs])
  have es: "encodeSegments segs = Inr (encodedPath segs)"
    using assms(3,4) by (rule encodeSegments_ok)
  have "127 < length segs"
    using assms(2) by simp
  then have sm: "signMessage bip tr path rawMsgHex displayHex sent = (Inl OutOfRange, sent)"
    using assms(1) by (intro signMessage_long [of bip path segs])
  have w: "writeInt8 buf (int (length segs)) 1 = Inl OutOfRange"
    using assms(2) by (simp add: writeInt8_def)
  show ?thesis
    using sm w pb getWalletPublicKey_sent [OF pb, of tr testnet sent]
      getWalletExtendedPublicKey_sent [of bip path segs "encodedPath segs" tr sent, OF assms(1) es]
      signMessageHash_sent [OF pb, of sent tr digestHex]
    by (simp add: pathFrame_def)
qed

theorem signMessage_rejects_long_paths_witness:
  "signMessage (bipAt (longPath 199) (replicate 200 0)) signDevice (longPath 199) ''00'' False []
     = (Inl OutOfRange, [])
   \<and> snd (getWalletExtendedPublicKey (bipAt (longPath 199) (replicate 200 0)) signDevice
            (longPath 199) [])
     = [pathFrame 0x04 (replicate 200 0)]"
proof -
  let ?bip = "bipAt (longPath 199) (replicate 200 0)"
  have h1: "?bip (longPath 199) = Some (replicate 200 0)"
    by (simp add: bipAt_def)
  have h2: "128 \<le> length (replicate 200 (0::int))" by simp
  have h3: "length (replicate 200 (0::int)) \<le> 255" by simp
  have h4: "\<forall>s \<in> set (replicate 200 (0::int)). 0 \<le> s \<and> s \<le> 4294967295" by simp
  show ?thesis
    using signMessage_rejects_long_paths [of ?bip "longPath 199" "replicate 200 0" signDevice
        "''00''" False "[]", OF h1 h2 h3 h4]
    by simp
qed

text \<open>
  Claim C4. For a device response that carries a raw public key of 65 bytes,
  \<open>getWalletPublicKey\<close> returns the hex of the key, of the lockArg and the address, where:
  the compressed key is 33 bytes, the prefix 0x03 for an odd last byte of Y and 0x02 for an
  even one, then the 32 bytes of X; the lockArg is the first 20 bytes of the 32-byte
  BLAKE2b hash of the compressed key under the 16-byte personalization
  \<open>ckb-default-hash\<close>; the script is the 54 bytes 0x00, the code hash, 0x01, the lockArg;
  and the address is the bech32m encoding of the script under the prefix of the network
  and the limit 1023. The encoding of original bech32 gives another string, and the
  default limit of 90 would reject the 97 characters of the address.
\<close>

theorem address_derivation:
  assumes "pathToBuffer bip path = Inr pathBuf"
    and "tr sent \<lparr>cla = 0x80, ins = 0x02, p1 = 0x00, p2 = 0x00, data = pathBuf\<rparr> = Inr response"
    and "key = rawPublicKey response"
    and "length key = 65"
    and "compressed = (if odd (unat (key ! 64)) then 0x03 else 0x02) # take 32 (drop 1 key)"
    and "digest = Blake2b 32 (fromAscii ''ckb-default-hash'') compressed"
    and "la = take 20 digest"
    and "script = [0x00] @ codeHash @ [0x01] @ map unat la"
    and "hrp = (if testnet then ''ckt'' else ''ckb'')"
  shows "getWalletPublicKey bip tr path testnet sent
         = (Inr \<lparr>publicKey = toHex key, lockArg = toHex la, address = encodedAddress testnet la\<rparr>,
            sent @ [\<lparr>cla = 0x80, ins = 0x02, p1 = 0x00, p2 = 0x00, data = pathBuf\<rparr>])
       \<and> length compressed = 33
       \<and> length (fromAscii ''ckb-default-hash'') = 16
       \<and> length digest = 32
       \<and> length la = 20
       \<and> length codeHash = 32
       \<and> length script = 54
       \<and> bech32m_encode hrp (toWords script) 1023 = Inr (encodedAddress testnet la)
       \<and> bech32_encode hrp (toWords script) 1023 \<noteq> Inr (encodedAddress testnet la)
       \<and> length (encodedAddress testnet la) = 97
       \<and> bech32m_encode hrp (toWords script) 90 = Inl EncodeError"
proof -
  have c: "compressed = compressedKey key"
    by (simp add: assms(5) compressedKey_def)
  have l: "la = lockArgOf compressed"
    by (simp add: assms(6,7) lockArgOf_def)
  have s: "script = addressScript la"
    by (simp add: assms(8) addressScript_def)
  have cp: "compressPublicKey (rawPublicKey response) = Inr compressed"
    using compressPublicKey_long [of key] assms(3,4) c by simp
  have len: "length la = 20"
    unfolding l by (rule length_lockArgOf)
  have run: "getWalletPublicKey bip tr path testnet sent
         = (Inr \<lparr>publicKey = toHex key, lockArg = toHex la, address = encodedAddress testnet la\<rparr>,
            sent @ [\<lparr>cla = 0x80, ins = 0x02, p1 = 0x00, p2 = 0x00, data = pathBuf\<rparr>])"
    unfolding l assms(3) using assms(1,2) cp by (rule getWalletPublicKey_run)
  have e1: "bech32m_encode hrp (toWords script) 1023 = Inr (encodedAddress testnet la)"
    using bech32m_encode_script [OF len, of testnet] by (simp add: s assms(9) BECH32_LIMIT_def)
  have e2: "bech32_encode hrp (toWords script) 1023 \<noteq> Inr (encodedAddress testnet la)"
    using bech32_differs [OF len, of testnet] by (simp add: s assms(9) BECH32_LIMIT_def)
  have e3: "bech32m_encode hrp (toWords script) 90 = Inl EncodeError"
    unfolding s assms(9) bech32m_encode_def encodeWith_script [OF len] by simp
  have d: "length digest = 32"
    by (simp add: assms(6) length_Blake2b)
  show ?thesis
    using run e1 e2 e3 d len assms(4)
    by (simp add: assms(5) fromAscii_def length_codeHash s length_addressScript
        encodedAddress_shape(3))
qed

theorem address_derivation_witness:
  "getWalletPublicKey (bipAt ''44h/144h/0h/0/0'' exampleSegments) (replyDevice (keyResponse exampleKey))
     ''44h/144h/0h/0/0'' False []
   = (Inr \<lparr>publicKey = ''0479be667ef9dcbbac55a06295ce870b07029bfcdb2dce28d959f2815b16f81798483ada7726a3c4655da4fbfc0e1108a8fd17b448a68554199c47d08ffb10d4b8'',
           lockArg = ''75178f34549c5fe9cd1a0c57aebd01e7ddf9249e'',
           address = ''ckb1qzda0cr08m85hc8jlnfp3zer7xulejywt49kt2rr0vthywaa50xwsqt4z78ng4yutl5u6xsv27ht6q08mhujf8sy3yulh''\<rparr>,
      [pathFrame 0x02 exampleSegments])"
proof -
  let ?response = "keyResponse exampleKey"
  have h2: "replyDevice ?response []
              \<lparr>cla = 0x80, ins = 0x02, p1 = 0x00, p2 = 0x00, data = encodedPath exampleSegments\<rparr>
            = Inr ?response"
    by (simp add: replyDevice_def)
  have h3: "exampleKey = rawPublicKey ?response"
    by (simp add: example_raw_key)
  have h4: "length exampleKey = 65"
    by (simp add: exampleKey_def)
  have h5: "exampleCompressed
            = (if odd (unat (exampleKey ! 64)) then 0x03 else 0x02) # take 32 (drop 1 exampleKey)"
    using example_compressed by (simp add: compressedKey_def)
  have h7: "exampleLockArg = take 20 (Blake2b 32 (fromAscii ''ckb-default-hash'') exampleCompressed)"
    using lockArgOf_example by (simp add: lockArgOf_def)
  have h9: "''ckb'' = (if False then ''ckt'' else ''ckb'')"
    by simp
  from address_derivation [of "(bipAt ''44h/144h/0h/0/0'' exampleSegments)" "''44h/144h/0h/0/0''"
      "encodedPath exampleSegments" "replyDevice ?response" "[]" ?response exampleKey
      exampleCompressed "Blake2b 32 (fromAscii ''ckb-default-hash'') exampleCompressed"
      exampleLockArg "[0x00] @ codeHash @ [0x01] @ map unat exampleLockArg" "''ckb''" False,
      OF example_path h2 h3 h4 h5 refl h7 refl h9]
  have "getWalletPublicKey (bipAt ''44h/144h/0h/0/0'' exampleSegments) (replyDevice ?response) ''44h/144h/0h/0/0'' False []
        = (Inr \<lparr>publicKey = toHex exampleKey, lockArg = toHex exampleLockArg,
                address = encodedAddress False exampleLockArg\<rparr>,
           [] @ [\<lparr>cla = 0x80, ins = 0x02, p1 = 0x00, p2 = 0x00, data = encodedPath exampleSegments\<rparr>])"
    by simp
  then show ?thesis
    unfolding example_key_hex example_lockArg_hex example_address_ckb pathFrame_def by simp
qed

text \<open>
  Claim C3, as the code has it. \<open>getWalletPublicKey\<close> does not validate the raw public
  key. For a key of any length of at least two bytes it returns the hex of the key, a
  lockArg and an address: the lockArg is hashed from the parity prefix (0x03 when byte 64
  is there and odd, 0x02 otherwise) and the bytes of the key from index 1, at most 32 of
  them, repeated to fill 32 bytes. For a key of 65 bytes or more that is the compressed
  key of bytes 1 to 32 and byte 64. Only a key of fewer than two bytes fails, with the
  argument error of \<open>Buffer.fill\<close>, after the frame was sent.
\<close>

theorem publicKey_not_validated:
  assumes "pathToBuffer bip path = Inr pathBuf"
    and "tr sent \<lparr>cla = 0x80, ins = 0x02, p1 = 0x00, p2 = 0x00, data = pathBuf\<rparr> = Inr response"
    and "key = rawPublicKey response"
  shows "(2 \<le> length key \<longrightarrow>
            getWalletPublicKey bip tr path testnet sent
            = (Inr \<lparr>publicKey = toHex key,
                    lockArg = toHex (lockArgOf (filledKey key)),
                    address = encodedAddress testnet (lockArgOf (filledKey key))\<rparr>,
               sent @ [\<lparr>cla = 0x80, ins = 0x02, p1 = 0x00, p2 = 0x00, data = pathBuf\<rparr>]))
       \<and> (65 \<le> length key \<longrightarrow> filledKey key = compressedKey key)
       \<and> (length key < 2 \<longrightarrow>
            getWalletPublicKey bip tr path testnet sent
            = (Inl InvalidArgValue,
               sent @ [\<lparr>cla = 0x80, ins = 0x02, p1 = 0x00, p2 = 0x00, data = pathBuf\<rparr>]))"
proof (intro conjI impI)
  assume "2 \<le> length key"
  then show "getWalletPublicKey bip tr path testnet sent
            = (Inr \<lparr>publicKey = toHex key,
                    lockArg = toHex (lockArgOf (filledKey key)),
                    address = encodedAddress testnet (lockArgOf (filledKey key))\<rparr>,
               sent @ [\<lparr>cla = 0x80, ins = 0x02, p1 = 0x00, p2 = 0x00, data = pathBuf\<rparr>])"
    unfolding assms(3) using assms(1,2) by (intro getWalletPublicKey_any)
next
  assume "65 \<le> length key"
  then show "filledKey key = compressedKey key"
    by (rule filledKey_long)
next
  assume "length key < 2"
  then have "compressPublicKey (rawPublicKey response) = Inl InvalidArgValue"
    unfolding assms(3) by (rule compressPublicKey_short)
  with assms(1,2) show "getWalletPublicKey bip tr path testnet sent
            = (Inl InvalidArgValue,
               sent @ [\<lparr>cla = 0x80, ins = 0x02, p1 = 0x00, p2 = 0x00, data = pathBuf\<rparr>])"
    by (rule getWalletPublicKey_fill_error)
qed

theorem publicKey_not_validated_witness:
  "getWalletPublicKey (bipAt ''44h/144h/0h/0/0'' exampleSegments) (replyDevice (keyResponse (exampleKey @ [0xFF])))
     ''44h/144h/0h/0/0'' True []
   = (Inr \<lparr>publicKey = toHex (exampleKey @ [0xFF]),
           lockArg = ''75178f34549c5fe9cd1a0c57aebd01e7ddf9249e'',
           address = ''ckt1qzda0cr08m85hc8jlnfp3zer7xulejywt49kt2rr0vthywaa50xwsqt4z78ng4yutl5u6xsv27ht6q08mhujf8s2r0n40''\<rparr>,
      [pathFrame 0x02 exampleSegments])
   \<and> getWalletPublicKey (bipAt ''44h/144h/0h/0/0'' exampleSegments) (replyDevice (keyResponse []))
     ''44h/144h/0h/0/0'' True []
   = (Inl InvalidArgValue, [pathFrame 0x02 exampleSegments])"
proof -
  let ?key = "exampleKey @ [0xFF]"
  have h2: "replyDevice r []
              \<lparr>cla = 0x80, ins = 0x02, p1 = 0x00, p2 = 0x00, data = encodedPath exampleSegments\<rparr>
            = Inr r" for r
    by (simp add: replyDevice_def)
  have k: "2 \<le> length ?key" "65 \<le> length ?key"
    by (simp_all add: exampleKey_def)
  have e: "rawPublicKey (keyResponse []) = []" "length ([] :: buffer) < 2"
    by (simp_all add: rawPublicKey_def keyResponse_def)
  from publicKey_not_validated [of "(bipAt ''44h/144h/0h/0/0'' exampleSegments)" "''44h/144h/0h/0/0''"
      "encodedPath exampleSegments" "replyDevice (keyResponse ?key)" "[]" "keyResponse ?key" ?key
      True, OF example_path h2 example_key66 [symmetric]] k
  have 1: "getWalletPublicKey (bipAt ''44h/144h/0h/0/0'' exampleSegments) (replyDevice (keyResponse ?key)) ''44h/144h/0h/0/0'' True []
        = (Inr \<lparr>publicKey = toHex ?key, lockArg = toHex (lockArgOf (compressedKey ?key)),
                address = encodedAddress True (lockArgOf (compressedKey ?key))\<rparr>,
           [] @ [\<lparr>cla = 0x80, ins = 0x02, p1 = 0x00, p2 = 0x00, data = encodedPath exampleSegments\<rparr>])"
    by simp
  from publicKey_not_validated [of "(bipAt ''44h/144h/0h/0/0'' exampleSegments)" "''44h/144h/0h/0/0''"
      "encodedPath exampleSegments" "replyDevice (keyResponse [])" "[]" "keyResponse []" "[]"
      True, OF example_path h2 e(1) [symmetric]] e(2)
  have 2: "getWalletPublicKey (bipAt ''44h/144h/0h/0/0'' exampleSegments) (replyDevice (keyResponse [])) ''44h/144h/0h/0/0'' True []
        = (Inl InvalidArgValue,
           [] @ [\<lparr>cla = 0x80, ins = 0x02, p1 = 0x00, p2 = 0x00, data = encodedPath exampleSegments\<rparr>])"
    by simp
  show ?thesis
    using 1 2
    unfolding example_compressed66 lockArgOf_example example_lockArg_hex example_address_ckt
      pathFrame_def
    by simp
qed

text \<open>Claim C3 as stated fails: a device response that carries a key of 66 bytes is not
  refused, and a lockArg and an address are returned.\<close>

theorem publicKey_length_counterexample:
  "length (rawPublicKey (keyResponse (exampleKey @ [0xFF]))) = 66
   \<and> getWalletPublicKey (bipAt ''44h/144h/0h/0/0'' exampleSegments) (replyDevice (keyResponse (exampleKey @ [0xFF])))
       ''44h/144h/0h/0/0'' False []
     = (Inr \<lparr>publicKey = ''0479be667ef9dcbbac55a06295ce870b07029bfcdb2dce28d959f2815b16f81798483ada7726a3c4655da4fbfc0e1108a8fd17b448a68554199c47d08ffb10d4b8ff'',
             lockArg = ''75178f34549c5fe9cd1a0c57aebd01e7ddf9249e'',
             address = ''ckb1qzda0cr08m85hc8jlnfp3zer7xulejywt49kt2rr0vthywaa50xwsqt4z78ng4yutl5u6xsv27ht6q08mhujf8sy3yulh''\<rparr>,
        [pathFrame 0x02 exampleSegments])"
proof -
  let ?key = "exampleKey @ [0xFF]"
  have r: "replyDevice (keyResponse ?key) []
              \<lparr>cla = 0x80, ins = 0x02, p1 = 0x00, p2 = 0x00, data = encodedPath exampleSegments\<rparr>
            = Inr (keyResponse ?key)"
    by (simp add: replyDevice_def)
  have c: "compressPublicKey (rawPublicKey (keyResponse ?key)) = Inr exampleCompressed"
    unfolding example_key66 example_compressed66 [symmetric]
    by (rule compressPublicKey_long) (simp add: exampleKey_def)
  have l: "length (rawPublicKey (keyResponse ?key)) = 66"
    unfolding example_key66 by (simp add: exampleKey_def)
  show ?thesis
    using l getWalletPublicKey_run [where tr = "replyDevice (keyResponse ?key)" and sent = "[]"
        and testnet = False, OF example_path r c]
    unfolding example_key66 lockArgOf_example example_lockArg_hex example_address_ckb
      example_key66_hex pathFrame_def
    by simp
qed

text \<open>
  Claim C6, as the code has it. The result of \<open>getWalletPublicKey\<close> depends on the
  device response and the network flag only: two runs that receive the same response
  return the same publicKey, lockArg and address. With the same response and the two
  network flags, the publicKey and the lockArg are the same, and the two addresses of 97
  characters start with \<open>ckb1\<close> (mainnet) and \<open>ckt1\<close> (testnet) and agree on the 87
  characters that encode the script; the six characters of the checksum, which is
  computed over the prefix as well, are each address's own.
\<close>

theorem derivation_deterministic:
  assumes "pathToBuffer bip path = Inr pathBuf"
    and "tr sent \<lparr>cla = 0x80, ins = 0x02, p1 = 0x00, p2 = 0x00, data = pathBuf\<rparr> = Inr response"
    and "tr' sent' \<lparr>cla = 0x80, ins = 0x02, p1 = 0x00, p2 = 0x00, data = pathBuf\<rparr> = Inr response"
    and "key = rawPublicKey response"
    and "2 \<le> length key"
    and "la = lockArgOf (filledKey key)"
  shows "fst (getWalletPublicKey bip tr path testnet sent)
         = fst (getWalletPublicKey bip tr' path testnet sent')
       \<and> fst (getWalletPublicKey bip tr path False sent)
         = Inr \<lparr>publicKey = toHex key, lockArg = toHex la, address = encodedAddress False la\<rparr>
       \<and> fst (getWalletPublicKey bip tr path True sent)
         = Inr \<lparr>publicKey = toHex key, lockArg = toHex la, address = encodedAddress True la\<rparr>
       \<and> take 4 (encodedAddress False la) = ''ckb1''
       \<and> take 4 (encodedAddress True la) = ''ckt1''
       \<and> take 87 (drop 4 (encodedAddress False la)) = take 87 (drop 4 (encodedAddress True la))
       \<and> length (encodedAddress False la) = 97
       \<and> length (encodedAddress True la) = 97"
proof -
  have len: "length la = 20"
    unfolding assms(6) by (rule length_lockArgOf)
  have k: "2 \<le> length (rawPublicKey response)"
    using assms(4,5) by simp
  have r: "getWalletPublicKey bip tr path t sent
           = (Inr \<lparr>publicKey = toHex key, lockArg = toHex la, address = encodedAddress t la\<rparr>,
              sent @ [\<lparr>cla = 0x80, ins = 0x02, p1 = 0x00, p2 = 0x00, data = pathBuf\<rparr>])" for t
    unfolding assms(4,6) using assms(1,2) k by (rule getWalletPublicKey_any)
  have r': "getWalletPublicKey bip tr' path t sent'
           = (Inr \<lparr>publicKey = toHex key, lockArg = toHex la, address = encodedAddress t la\<rparr>,
              sent' @ [\<lparr>cla = 0x80, ins = 0x02, p1 = 0x00, p2 = 0x00, data = pathBuf\<rparr>])" for t
    unfolding assms(4,6) using assms(1,3) k by (rule getWalletPublicKey_any)
  show ?thesis
    using encodedAddress_shape(4) [OF len] encodedAddress_shape(3) [OF len]
    by (simp add: r r' encodedAddress_shape(1,2))
qed

theorem derivation_deterministic_witness:
  "fst (getWalletPublicKey (bipAt ''44h/144h/0h/0/0'' exampleSegments) (replyDevice (keyResponse exampleKey)) ''44h/144h/0h/0/0'' False [])
   = Inr \<lparr>publicKey = toHex exampleKey, lockArg = ''75178f34549c5fe9cd1a0c57aebd01e7ddf9249e'',
          address = ''ckb1qzda0cr08m85hc8jlnfp3zer7xulejywt49kt2rr0vthywaa50xwsqt4z78ng4yutl5u6xsv27ht6q08mhujf8sy3yulh''\<rparr>
   \<and> fst (getWalletPublicKey (bipAt ''44h/144h/0h/0/0'' exampleSegments) (replyDevice (keyResponse exampleKey)) ''44h/144h/0h/0/0'' True [])
   = Inr \<lparr>publicKey = toHex exampleKey, lockArg = ''75178f34549c5fe9cd1a0c57aebd01e7ddf9249e'',
          address = ''ckt1qzda0cr08m85hc8jlnfp3zer7xulejywt49kt2rr0vthywaa50xwsqt4z78ng4yutl5u6xsv27ht6q08mhujf8s2r0n40''\<rparr>"
proof -
  have h2: "replyDevice (keyResponse exampleKey) []
              \<lparr>cla = 0x80, ins = 0x02, p1 = 0x00, p2 = 0x00, data = encodedPath exampleSegments\<rparr>
            = Inr (keyResponse exampleKey)"
    by (simp add: replyDevice_def)
  have h5: "2 \<le> length exampleKey"
    by (simp add: exampleKey_def)
  have fl: "filledKey exampleKey = compressedKey exampleKey"
    by (rule filledKey_long) (simp add: exampleKey_def)
  have h6: "exampleLockArg = lockArgOf (filledKey exampleKey)"
    unfolding fl example_compressed lockArgOf_example ..
  from derivation_deterministic [of "(bipAt ''44h/144h/0h/0/0'' exampleSegments)" "''44h/144h/0h/0/0''" "encodedPath exampleSegments"
      "replyDevice (keyResponse exampleKey)" "[]" "keyResponse exampleKey"
      "replyDevice (keyResponse exampleKey)" "[]" exampleKey exampleLockArg,
      OF example_path h2 h2 example_raw_key [symmetric] h5 h6]
  show ?thesis
    unfolding example_lockArg_hex example_address_ckb example_address_ckt by simp
qed

text \<open>Claim C6 as stated fails: the addresses of one key on the two networks differ in
  more than the prefix, since their last six characters differ as well.\<close>

theorem address_prefix_counterexample:
  "fst (getWalletPublicKey (bipAt ''44h/144h/0h/0/0'' exampleSegments) (replyDevice (keyResponse exampleKey)) ''44h/144h/0h/0/0'' False [])
   = Inr \<lparr>publicKey = ''0479be667ef9dcbbac55a06295ce870b07029bfcdb2dce28d959f2815b16f81798483ada7726a3c4655da4fbfc0e1108a8fd17b448a68554199c47d08ffb10d4b8'',
          lockArg = ''75178f34549c5fe9cd1a0c57aebd01e7ddf9249e'',
          address = ''ckb1qzda0cr08m85hc8jlnfp3zer7xulejywt49kt2rr0vthywaa50xwsqt4z78ng4yutl5u6xsv27ht6q08mhujf8sy3yulh''\<rparr>
   \<and> fst (getWalletPublicKey (bipAt ''44h/144h/0h/0/0'' exampleSegments) (replyDevice (keyResponse exampleKey)) ''44h/144h/0h/0/0'' True [])
   = Inr \<lparr>publicKey = ''0479be667ef9dcbbac55a06295ce870b07029bfcdb2dce28d959f2815b16f81798483ada7726a3c4655da4fbfc0e1108a8fd17b448a68554199c47d08ffb10d4b8'',
          lockArg = ''75178f34549c5fe9cd1a0c57aebd01e7ddf9249e'',
          address = ''ckt1qzda0cr08m85hc8jlnfp3zer7xulejywt49kt2rr0vthywaa50xwsqt4z78ng4yutl5u6xsv27ht6q08mhujf8s2r0n40''\<rparr>
   \<and> drop 3 ''ckb1qzda0cr08m85hc8jlnfp3zer7xulejywt49kt2rr0vthywaa50xwsqt4z78ng4yutl5u6xsv27ht6q08mhujf8sy3yulh''
     \<noteq> drop 3 ''ckt1qzda0cr08m85hc8jlnfp3zer7xulejywt49kt2rr0vthywaa50xwsqt4z78ng4yutl5u6xsv27ht6q08mhujf8s2r0n40''"
proof -
  have r: "replyDevice (keyResponse exampleKey) []
              \<lparr>cla = 0x80, ins = 0x02, p1 = 0x00, p2 = 0x00, data = encodedPath exampleSegments\<rparr>
            = Inr (keyResponse exampleKey)"
    by (simp add: replyDevice_def)
  have c: "compressPublicKey (rawPublicKey (keyResponse exampleKey)) = Inr exampleCompressed"
    unfolding example_raw_key example_compressed [symmetric]
    by (rule compressPublicKey_long) (simp add: exampleKey_def)
  show ?thesis
    using getWalletPublicKey_run [where tr = "replyDevice (keyResponse exampleKey)" and sent = "[]"
        and testnet = False, OF example_path r c]
      getWalletPublicKey_run [where tr = "replyDevice (keyResponse exampleKey)" and sent = "[]"
        and testnet = True, OF example_path r c]
    unfolding example_raw_key lockArgOf_example example_lockArg_hex example_address_ckb
      example_address_ckt example_key_hex
    by simp
qed

text \<open>
  Claim C9. For two device responses that carry keys of 65 bytes which agree on bytes 1
  to 32 and on the lowest bit of byte 64, and the same network flag,
  \<open>getWalletPublicKey\<close> returns the same lockArg and the same address, whatever the
  first byte and the other bytes of Y are.
\<close>

theorem lockArg_depends_on_x_and_parity:
  assumes "pathToBuffer bip path = Inr pathBuf"
    and "tr1 sent1 \<lparr>cla = 0x80, ins = 0x02, p1 = 0x00, p2 = 0x00, data = pathBuf\<rparr> = Inr response1"
    and "tr2 sent2 \<lparr>cla = 0x80, ins = 0x02, p1 = 0x00, p2 = 0x00, data = pathBuf\<rparr> = Inr response2"
    and "key1 = rawPublicKey response1" and "length key1 = 65"
    and "key2 = rawPublicKey response2" and "length key2 = 65"
    and "take 32 (drop 1 key1) = take 32 (drop 1 key2)"
    and "odd (unat (key1 ! 64)) = odd (unat (key2 ! 64))"
    and "la = lockArgOf (compressedKey key1)"
  shows "fst (getWalletPublicKey bip tr1 path testnet sent1)
         = Inr \<lparr>publicKey = toHex key1, lockArg = toHex la, address = encodedAddress testnet la\<rparr>
       \<and> fst (getWalletPublicKey bip tr2 path testnet sent2)
         = Inr \<lparr>publicKey = toHex key2, lockArg = toHex la, address = encodedAddress testnet la\<rparr>"
proof -
  have c: "compressedKey key2 = compressedKey key1"
    using assms(8,9) by (simp add: compressedKey_def)
  have c1: "compressPublicKey (rawPublicKey response1) = Inr (compressedKey key1)"
    using compressPublicKey_long [of key1] assms(4,5) by simp
  have c2: "compressPublicKey (rawPublicKey response2) = Inr (compressedKey key1)"
    using compressPublicKey_long [of key2] assms(6,7) c by simp
  show ?thesis
    using getWalletPublicKey_run [where tr = tr1 and sent = sent1 and testnet = testnet,
        OF assms(1,2) c1]
      getWalletPublicKey_run [where tr = tr2 and sent = sent2 and testnet = testnet,
        OF assms(1,3) c2]
    by (simp add: assms(4,6,10))
qed

theorem lockArg_depends_on_x_and_parity_witness:
  "fst (getWalletPublicKey (bipAt ''44h/144h/0h/0/0'' exampleSegments) (replyDevice (keyResponse exampleKey)) ''44h/144h/0h/0/0'' False [])
   = Inr \<lparr>publicKey = toHex exampleKey, lockArg = ''75178f34549c5fe9cd1a0c57aebd01e7ddf9249e'',
          address = ''ckb1qzda0cr08m85hc8jlnfp3zer7xulejywt49kt2rr0vthywaa50xwsqt4z78ng4yutl5u6xsv27ht6q08mhujf8sy3yulh''\<rparr>
   \<and> fst (getWalletPublicKey (bipAt ''44h/144h/0h/0/0'' exampleSegments)
          (replyDevice (keyResponse (5 # take 32 (drop 1 exampleKey) @ replicate 31 0xEE @ [0x02])))
          ''44h/144h/0h/0/0'' False [])
   = Inr \<lparr>publicKey = toHex (5 # take 32 (drop 1 exampleKey) @ replicate 31 0xEE @ [0x02]),
          lockArg = ''75178f34549c5fe9cd1a0c57aebd01e7ddf9249e'',
          address = ''ckb1qzda0cr08m85hc8jlnfp3zer7xulejywt49kt2rr0vthywaa50xwsqt4z78ng4yutl5u6xsv27ht6q08mhujf8sy3yulh''\<rparr>"
proof -
  let ?key2 = "5 # take 32 (drop 1 exampleKey) @ replicate 31 0xEE @ [0x02] :: buffer"
  have h: "replyDevice r []
              \<lparr>cla = 0x80, ins = 0x02, p1 = 0x00, p2 = 0x00, data = encodedPath exampleSegments\<rparr>
            = Inr r" for r
    by (simp add: replyDevice_def)
  have l1: "length exampleKey = 65"
    by (simp add: exampleKey_def)
  have l2: "length ?key2 = 65"
    by (simp add: exampleKey_def)
  have k2: "?key2 = rawPublicKey (keyResponse ?key2)"
    by (simp add: rawPublicKey_def keyResponse_def l1)
  have x: "take 32 (drop 1 exampleKey) = take 32 (drop 1 ?key2)"
    by (simp add: exampleKey_def)
  have n: "?key2 ! 64 = 0x02"
    by (simp add: exampleKey_def nth_append)
  have p: "odd (unat (exampleKey ! 64)) = odd (unat (?key2 ! 64))"
    unfolding n by (simp add: exampleKey_def)
  have la: "exampleLockArg = lockArgOf (compressedKey exampleKey)"
    by (simp add: example_compressed lockArgOf_example)
  from lockArg_depends_on_x_and_parity [of "(bipAt ''44h/144h/0h/0/0'' exampleSegments)" "''44h/144h/0h/0/0''" "encodedPath exampleSegments"
      "replyDevice (keyResponse exampleKey)" "[]" "keyResponse exampleKey"
      "replyDevice (keyResponse ?key2)" "[]" "keyResponse ?key2" exampleKey ?key2 exampleLockArg
      False, OF example_path h h example_raw_key [symmetric] l1 k2 l2 x p la]
  show ?thesis
    unfolding example_lockArg_hex example_address_ckb by simp
qed

text \<open>
  Claim C7, as the code has it. \<open>getAppConfiguration\<close> sends two frames, instruction 0x00
  then 0x09, both without payload. The version is the decimal text of the first three
  bytes of the first reply joined with dots; the hash is the second reply without its
  last three bytes, one character a byte. So a first reply \<open>[1, 0, 3]\<close> and a second
  reply of 29 bytes followed by 0x00, 0x90, 0x00 give the version \<open>1.0.3\<close> and a hash of 29
  characters; a hash of 26 characters comes from a second reply of 29 bytes in all.
\<close>

theorem getAppConfiguration_result:
  assumes "tr sent \<lparr>cla = 0x80, ins = 0x00, p1 = 0x00, p2 = 0x00, data = []\<rparr> = Inr response1"
    and "tr (sent @ [\<lparr>cla = 0x80, ins = 0x00, p1 = 0x00, p2 = 0x00, data = []\<rparr>])
           \<lparr>cla = 0x80, ins = 0x09, p1 = 0x00, p2 = 0x00, data = []\<rparr> = Inr response2"
    and "3 \<le> length response1"
  shows "getAppConfiguration tr sent
         = (Inr \<lparr>version = decimal (unat (response1 ! 0)) @ ''.''
                           @ decimal (unat (response1 ! 1)) @ ''.''
                           @ decimal (unat (response1 ! 2)),
                 hash = toLatin1 (take (length response2 - 3) response2)\<rparr>,
            sent @ [\<lparr>cla = 0x80, ins = 0x00, p1 = 0x00, p2 = 0x00, data = []\<rparr>,
                    \<lparr>cla = 0x80, ins = 0x09, p1 = 0x00, p2 = 0x00, data = []\<rparr>])
       \<and> length (toLatin1 (take (length response2 - 3) response2)) = length response2 - 3"
  using getAppConfiguration_run [OF assms(1,2)] version_digits [OF assms(3)]
  by (simp add: toLatin1_def)

theorem getAppConfiguration_result_witness:
  "getAppConfiguration (configDevice [1, 0, 3] (replicate 26 0x61 @ [0x00, 0x90, 0x00])) []
   = (Inr \<lparr>version = ''1.0.3'', hash = replicate 26 CHR ''a''\<rparr>,
      [\<lparr>cla = 0x80, ins = 0x00, p1 = 0x00, p2 = 0x00, data = []\<rparr>,
       \<lparr>cla = 0x80, ins = 0x09, p1 = 0x00, p2 = 0x00, data = []\<rparr>])"
proof -
  let ?tr = "configDevice [1, 0, 3] (replicate 26 0x61 @ [0x00, 0x90, 0x00])"
  have 1: "?tr [] \<lparr>cla = 0x80, ins = 0x00, p1 = 0x00, p2 = 0x00, data = []\<rparr> = Inr [1, 0, 3]"
    by (simp add: configDevice_def)
  have 2: "?tr ([] @ [\<lparr>cla = 0x80, ins = 0x00, p1 = 0x00, p2 = 0x00, data = []\<rparr>])
             \<lparr>cla = 0x80, ins = 0x09, p1 = 0x00, p2 = 0x00, data = []\<rparr>
           = Inr (replicate 26 0x61 @ [0x00, 0x90, 0x00])"
    by (simp add: configDevice_def)
  have 3: "3 \<le> length [1, 0, 3 :: byte]"
    by simp
  have v: "decimal (Suc 0) = ''1''" "decimal 0 = ''0''" "decimal 3 = ''3''"
    by (simp_all add: decimal.simps digitChar_def)
  have c: "char_of (97::nat) = CHR ''a''"
    using char_of_char [of "CHR ''a''", where ?'a = nat] by simp
  from getAppConfiguration_result [of ?tr "[]" "[1, 0, 3]"
      "replicate 26 0x61 @ [0x00, 0x90, 0x00]", OF 1 2 3]
  show ?thesis
    by (simp add: v toLatin1_def c)
qed

text \<open>Claim C7 as stated fails in its example: after a first reply \<open>[1, 0, 3]\<close>, a second
  reply of 29 bytes followed by 0x00, 0x90, 0x00 gives a hash of 29 characters, not 26.\<close>

theorem getAppConfiguration_counterexample:
  "fst (getAppConfiguration (configDevice [1, 0, 3] (replicate 29 0x61 @ [0x00, 0x90, 0x00])) [])
   = Inr \<lparr>version = ''1.0.3'', hash = replicate 29 CHR ''a''\<rparr>
   \<and> length (replicate 29 CHR ''a'') \<noteq> 26"
proof -
  have sl: "slice (replicate 29 0x61 @ [0x00, 0x90, 0x00]) 0 (-3) = replicate 29 0x61"
    by (simp add: slice_def sliceN_def adjustOffset_def Let_def)
  have v: "decimal (Suc 0) = ''1''" "decimal 0 = ''0''" "decimal 3 = ''3''"
    by (simp_all add: decimal.simps digitChar_def)
  have c: "char_of (97::nat) = CHR ''a''"
    using char_of_char [of "CHR ''a''", where ?'a = nat] by simp
  show ?thesis
    by (simp add: getAppConfiguration_def andThen_def sync_def send_def configDevice_def sl
        numberToString_def at_def v toLatin1_def c)
qed

text \<open>
  Claim C2, as the code has it. No operation checks the length of a device response and
  none fails with a length error: a response shorter than the layout is read with slices
  clamped to it, never out of bounds. \<open>getWalletId\<close> returns the hex of the first 32 bytes,
  or of all the bytes when there are fewer. \<open>getWalletExtendedPublicKey\<close> returns the hex
  of the bytes of the public key and of the chain code that exist, the chain code empty
  when its length byte is missing. \<open>getWalletPublicKey\<close> returns the hex of the key bytes
  that exist, with a lockArg and an address derived from them, when there are at least two
  key bytes; with fewer it fails with the argument error of \<open>Buffer.fill\<close>, after the
  frame was sent. \<open>getAppConfiguration\<close> prints \<open>undefined\<close> for each of the three version
  bytes that is missing, and the hash is the second reply without its last three bytes,
  empty when it has no more than three. \<open>signMessage\<close> and \<open>signMessageHash\<close> return the
  hex of the first 65 bytes of the last reply, or of all its bytes when there are fewer.
\<close>

theorem short_response_is_truncated:
  "(tr sent \<lparr>cla = 0x80, ins = 0x01, p1 = 0x00, p2 = 0x00, data = []\<rparr> = Inr response \<longrightarrow>
      getWalletId tr sent
      = (Inr (toHex (take 32 response)),
         sent @ [\<lparr>cla = 0x80, ins = 0x01, p1 = 0x00, p2 = 0x00, data = []\<rparr>])
      \<and> length (toHex (take 32 response)) = 2 * min (length response) 32)
   \<and> (bip path = Some segs \<and> encodeSegments segs = Inr pathBuf
      \<and> tr sent \<lparr>cla = 0x80, ins = 0x04, p1 = 0x00, p2 = 0x00, data = pathBuf\<rparr> = Inr response \<longrightarrow>
      getWalletExtendedPublicKey bip tr path sent
      = (Inr \<lparr>public_key = toHex (rawPublicKey response),
              chain_code = toHex (chainCode response)\<rparr>,
         sent @ [\<lparr>cla = 0x80, ins = 0x04, p1 = 0x00, p2 = 0x00, data = pathBuf\<rparr>])
      \<and> length (rawPublicKey response) \<le> length response - 1
      \<and> length (chainCode response) \<le> length response - 2)
   \<and> (pathToBuffer bip path = Inr pathBuf
      \<and> tr sent \<lparr>cla = 0x80, ins = 0x02, p1 = 0x00, p2 = 0x00, data = pathBuf\<rparr> = Inr response \<longrightarrow>
      getWalletPublicKey bip tr path testnet sent
      = (if 2 \<le> length (rawPublicKey response)
         then Inr \<lparr>publicKey = toHex (rawPublicKey response),
                   lockArg = toHex (lockArgOf (filledKey (rawPublicKey response))),
                   address = encodedAddress testnet
                               (lockArgOf (filledKey (rawPublicKey response)))\<rparr>
         else Inl InvalidArgValue,
         sent @ [\<lparr>cla = 0x80, ins = 0x02, p1 = 0x00, p2 = 0x00, data = pathBuf\<rparr>])
      \<and> length (rawPublicKey response) \<le> length response - 1)
   \<and> (tr sent \<lparr>cla = 0x80, ins = 0x00, p1 = 0x00, p2 = 0x00, data = []\<rparr> = Inr response
      \<and> tr (sent @ [\<lparr>cla = 0x80, ins = 0x00, p1 = 0x00, p2 = 0x00, data = []\<rparr>])
           \<lparr>cla = 0x80, ins = 0x09, p1 = 0x00, p2 = 0x00, data = []\<rparr> = Inr response2 \<longrightarrow>
      getAppConfiguration tr sent
      = (Inr \<lparr>version = versionPart response 0 @ ''.'' @ versionPart response 1 @ ''.''
                        @ versionPart response 2,
              hash = toLatin1 (take (length response2 - 3) response2)\<rparr>,
         sent @ [\<lparr>cla = 0x80, ins = 0x00, p1 = 0x00, p2 = 0x00, data = []\<rparr>,
                 \<lparr>cla = 0x80, ins = 0x09, p1 = 0x00, p2 = 0x00, data = []\<rparr>])
      \<and> length (toLatin1 (take (length response2 - 3) response2)) = length response2 - 3)
   \<and> (bip path = Some segs \<and> length segs \<le> 127 \<and> (\<forall>s \<in> set segs. 0 \<le> s \<and> s \<le> 4294967295)
      \<and> rawMsg = magicBytes @ fromHex rawMsgHex
      \<and> accepted tr sent (signInitFrame segs displayHex # continueFrames rawMsg)
      \<and> tr (sent @ signInitFrame segs displayHex # continueFrames rawMsg) (finalFrame rawMsg)
        = Inr response \<longrightarrow>
      fst (signMessage bip tr path rawMsgHex displayHex sent) = Inr (toHex (take 65 response))
      \<and> length (toHex (take 65 response)) = 2 * min (length response) 65)
   \<and> (bip path = Some segs \<and> length segs \<le> 255 \<and> (\<forall>s \<in> set segs. 0 \<le> s \<and> s \<le> 4294967295)
      \<and> tr sent (pathFrame 0x07 segs) = Inr response1
      \<and> tr (sent @ [pathFrame 0x07 segs])
           \<lparr>cla = 0x80, ins = 0x07, p1 = 0x80, p2 = 0x00, data = fromHex rawMsgHex\<rparr>
        = Inr response \<longrightarrow>
      fst (signMessageHash bip tr path rawMsgHex sent) = Inr (toHex (take 65 response))
      \<and> length (toHex (take 65 response)) = 2 * min (length response) 65)"
proof -
  have key_len: "length (rawPublicKey response) \<le> length response - 1"
    by (cases response) (simp_all add: rawPublicKey_def)
  have chain_len: "length (chainCode response) \<le> length response - 2"
    by (cases response) (auto simp: chainCode_def)
  have c1: "tr sent \<lparr>cla = 0x80, ins = 0x01, p1 = 0x00, p2 = 0x00, data = []\<rparr> = Inr response \<longrightarrow>
      getWalletId tr sent
      = (Inr (toHex (take 32 response)),
         sent @ [\<lparr>cla = 0x80, ins = 0x01, p1 = 0x00, p2 = 0x00, data = []\<rparr>])
      \<and> length (toHex (take 32 response)) = 2 * min (length response) 32"
    using getWalletId_run [of tr sent response] by (simp add: length_toHex)
  have c2: "bip path = Some segs \<and> encodeSegments segs = Inr pathBuf
      \<and> tr sent \<lparr>cla = 0x80, ins = 0x04, p1 = 0x00, p2 = 0x00, data = pathBuf\<rparr> = Inr response \<longrightarrow>
      getWalletExtendedPublicKey bip tr path sent
      = (Inr \<lparr>public_key = toHex (rawPublicKey response),
              chain_code = toHex (chainCode response)\<rparr>,
         sent @ [\<lparr>cla = 0x80, ins = 0x04, p1 = 0x00, p2 = 0x00, data = pathBuf\<rparr>])
      \<and> length (rawPublicKey response) \<le> length response - 1
      \<and> length (chainCode response) \<le> length response - 2"
    using getWalletExtendedPublicKey_run [of bip path segs pathBuf tr sent response]
      key_len chain_len
    by simp
  have c3: "pathToBuffer bip path = Inr pathBuf
      \<and> tr sent \<lparr>cla = 0x80, ins = 0x02, p1 = 0x00, p2 = 0x00, data = pathBuf\<rparr> = Inr response \<longrightarrow>
      getWalletPublicKey bip tr path testnet sent
      = (if 2 \<le> length (rawPublicKey response)
         then Inr \<lparr>publicKey = toHex (rawPublicKey response),
                   lockArg = toHex (lockArgOf (filledKey (rawPublicKey response))),
                   address = encodedAddress testnet
                               (lockArgOf (filledKey (rawPublicKey response)))\<rparr>
         else Inl InvalidArgValue,
         sent @ [\<lparr>cla = 0x80, ins = 0x02, p1 = 0x00, p2 = 0x00, data = pathBuf\<rparr>])
      \<and> length (rawPublicKey response) \<le> length response - 1"
  proof (cases "2 \<le> length (rawPublicKey response)")
    case True
    then show ?thesis
      using getWalletPublicKey_any [of bip path pathBuf tr sent response testnet] key_len
      by simp
  next
    case False
    then have "length (rawPublicKey response) < 2"
      by simp
    then show ?thesis
      using getWalletPublicKey_short [of bip path pathBuf tr sent response testnet] key_len
      by simp
  qed
  have c4: "tr sent \<lparr>cla = 0x80, ins = 0x00, p1 = 0x00, p2 = 0x00, data = []\<rparr> = Inr response
      \<and> tr (sent @ [\<lparr>cla = 0x80, ins = 0x00, p1 = 0x00, p2 = 0x00, data = []\<rparr>])
           \<lparr>cla = 0x80, ins = 0x09, p1 = 0x00, p2 = 0x00, data = []\<rparr> = Inr response2 \<longrightarrow>
      getAppConfiguration tr sent
      = (Inr \<lparr>version = versionPart response 0 @ ''.'' @ versionPart response 1 @ ''.''
                        @ versionPart response 2,
              hash = toLatin1 (take (length response2 - 3) response2)\<rparr>,
         sent @ [\<lparr>cla = 0x80, ins = 0x00, p1 = 0x00, p2 = 0x00, data = []\<rparr>,
                 \<lparr>cla = 0x80, ins = 0x09, p1 = 0x00, p2 = 0x00, data = []\<rparr>])
      \<and> length (toLatin1 (take (length response2 - 3) response2)) = length response2 - 3"
    using getAppConfiguration_run [of tr sent response response2]
    by (simp add: versionPart_eq toLatin1_def)
  have c5: "bip path = Some segs \<and> length segs \<le> 127
      \<and> (\<forall>s \<in> set segs. 0 \<le> s \<and> s \<le> 4294967295)
      \<and> rawMsg = magicBytes @ fromHex rawMsgHex
      \<and> accepted tr sent (signInitFrame segs displayHex # continueFrames rawMsg)
      \<and> tr (sent @ signInitFrame segs displayHex # continueFrames rawMsg) (finalFrame rawMsg)
        = Inr response \<longrightarrow>
      fst (signMessage bip tr path rawMsgHex displayHex sent) = Inr (toHex (take 65 response))
      \<and> length (toHex (take 65 response)) = 2 * min (length response) 65"
  proof (rule impI)
    assume a: "bip path = Some segs \<and> length segs \<le> 127
      \<and> (\<forall>s \<in> set segs. 0 \<le> s \<and> s \<le> 4294967295)
      \<and> rawMsg = magicBytes @ fromHex rawMsgHex
      \<and> accepted tr sent (signInitFrame segs displayHex # continueFrames rawMsg)
      \<and> tr (sent @ signInitFrame segs displayHex # continueFrames rawMsg) (finalFrame rawMsg)
        = Inr response"
    have "signMessage bip tr path rawMsgHex displayHex sent
          = (Inr (toHex (take 65 response)),
             sent @ signInitFrame segs displayHex # continueFrames rawMsg @ [finalFrame rawMsg])"
      by (rule signMessage_run [of bip path segs rawMsg rawMsgHex tr sent displayHex response])
        (use a in blast)+
    then show "fst (signMessage bip tr path rawMsgHex displayHex sent)
                 = Inr (toHex (take 65 response))
               \<and> length (toHex (take 65 response)) = 2 * min (length response) 65"
      by (simp add: length_toHex)
  qed
  have c6: "bip path = Some segs \<and> length segs \<le> 255
      \<and> (\<forall>s \<in> set segs. 0 \<le> s \<and> s \<le> 4294967295)
      \<and> tr sent (pathFrame 0x07 segs) = Inr response1
      \<and> tr (sent @ [pathFrame 0x07 segs])
           \<lparr>cla = 0x80, ins = 0x07, p1 = 0x80, p2 = 0x00, data = fromHex rawMsgHex\<rparr>
        = Inr response \<longrightarrow>
      fst (signMessageHash bip tr path rawMsgHex sent) = Inr (toHex (take 65 response))
      \<and> length (toHex (take 65 response)) = 2 * min (length response) 65"
    using signMessageHash_run [of bip path segs tr sent response1 rawMsgHex response]
    by (simp add: length_toHex)
  show ?thesis
    by (rule conjI [OF c1 conjI [OF c2 conjI [OF c3 conjI [OF c4 conjI [OF c5 c6]]]]])
qed

theorem short_response_is_truncated_witness:
  "getWalletId (replyDevice [0x69, 0xC4, 0x6B]) []
   = (Inr ''69c46b'', [\<lparr>cla = 0x80, ins = 0x01, p1 = 0x00, p2 = 0x00, data = []\<rparr>])
   \<and> getWalletExtendedPublicKey (bipAt ''44h/144h/0h/0/0'' exampleSegments)
       (replyDevice [0x41, 0x04, 0x01]) ''44h/144h/0h/0/0'' []
     = (Inr \<lparr>public_key = ''0401'', chain_code = []\<rparr>, [pathFrame 0x04 exampleSegments])
   \<and> getWalletPublicKey (bipAt ''44h/144h/0h/0/0'' exampleSegments)
       (replyDevice [0x41, 0x04, 0x79, 0xBE]) ''44h/144h/0h/0/0'' False []
     = (Inr \<lparr>publicKey = ''0479be'',
             lockArg = toHex (lockArgOf (filledKey [0x04, 0x79, 0xBE])),
             address = encodedAddress False (lockArgOf (filledKey [0x04, 0x79, 0xBE]))\<rparr>,
        [pathFrame 0x02 exampleSegments])
   \<and> getWalletPublicKey (bipAt ''44h/144h/0h/0/0'' exampleSegments)
       (replyDevice [0x90, 0x00]) ''44h/144h/0h/0/0'' False []
     = (Inl InvalidArgValue, [pathFrame 0x02 exampleSegments])
   \<and> getWalletPublicKey (bipAt ''44h/144h/0h/0/0'' exampleSegments)
       (replyDevice []) ''44h/144h/0h/0/0'' False []
     = (Inl InvalidArgValue, [pathFrame 0x02 exampleSegments])
   \<and> getAppConfiguration (configDevice [1, 0] [0x90, 0x00]) []
     = (Inr \<lparr>version = ''1.0.undefined'', hash = []\<rparr>,
        [\<lparr>cla = 0x80, ins = 0x00, p1 = 0x00, p2 = 0x00, data = []\<rparr>,
         \<lparr>cla = 0x80, ins = 0x09, p1 = 0x00, p2 = 0x00, data = []\<rparr>])
   \<and> fst (signMessage (bipAt ''44h/144h/0h/0/0'' exampleSegments) (replyDevice [0x6A, 0x80])
            ''44h/144h/0h/0/0'' ''CAfe0142'' True [])
     = Inr ''6a80''
   \<and> fst (signMessageHash (bipAt ''44h/144h/0h/0/0'' exampleSegments)
            (replyDevice [0x6A, 0x80]) ''44h/144h/0h/0/0'' ''CAfe0142'' [])
     = Inr ''6a80''"
proof -
  let ?bip = "bipAt ''44h/144h/0h/0/0'' exampleSegments"
  let ?path = "''44h/144h/0h/0/0''"
  let ?buf = "encodedPath exampleSegments"
  let ?msg = "magicBytes @ fromHex ''CAfe0142''"
  have b: "?bip ?path = Some exampleSegments"
    by (simp add: bipAt_def)
  have n: "length exampleSegments \<le> 127" "length exampleSegments \<le> 255"
    by (simp_all add: exampleSegments_def)
  have rng: "\<forall>s \<in> set exampleSegments. 0 \<le> s \<and> s \<le> 4294967295"
    by (simp add: exampleSegments_def)
  have e: "encodeSegments exampleSegments = Inr ?buf"
    using n(2) rng by (rule encodeSegments_ok)
  have d: "replyDevice reply sent frame = Inr reply" for reply sent frame
    by (simp add: replyDevice_def)
  have g1: "configDevice [1, 0] [0x90, 0x00] []
              \<lparr>cla = 0x80, ins = 0x00, p1 = 0x00, p2 = 0x00, data = []\<rparr> = Inr [1, 0]"
    by (simp add: configDevice_def)
  have g2: "configDevice [1, 0] [0x90, 0x00]
              ([] @ [\<lparr>cla = 0x80, ins = 0x00, p1 = 0x00, p2 = 0x00, data = []\<rparr>])
              \<lparr>cla = 0x80, ins = 0x09, p1 = 0x00, p2 = 0x00, data = []\<rparr> = Inr [0x90, 0x00]"
    by (simp add: configDevice_def)
  have h1: "toHex (take 32 [0x69, 0xC4, 0x6B]) = ''69c46b''"
    by (simp add: toHex_def hexDigit_def)
  have h2: "toHex (rawPublicKey [0x41, 0x04, 0x01]) = ''0401''"
    "toHex (chainCode [0x41, 0x04, 0x01]) = []"
    by (simp_all add: toHex_def hexDigit_def rawPublicKey_def chainCode_def)
  have h3: "rawPublicKey [0x41, 0x04, 0x79, 0xBE] = [0x04, 0x79, 0xBE]"
    "rawPublicKey [0x90, 0x00] = [0x00]" "rawPublicKey [] = []"
    by (simp_all add: rawPublicKey_def)
  have h4: "toHex [0x04, 0x79, 0xBE] = ''0479be''"
    by (simp add: toHex_def hexDigit_def)
  have h5: "versionPart [1, 0] 0 = ''1''" "versionPart [1, 0] 1 = ''0''"
    "versionPart [1, 0] 2 = ''undefined''"
    by (simp_all add: versionPart_def decimal.simps digitChar_def)
  have h6: "toHex (take 65 [0x6A, 0x80]) = ''6a80''"
    by (simp add: toHex_def hexDigit_def)
  from short_response_is_truncated [where tr = "replyDevice [0x69, 0xC4, 0x6B]" and sent = "[]"
      and response = "[0x69, 0xC4, 0x6B]", THEN conjunct1, THEN mp, OF d]
  have w1: "getWalletId (replyDevice [0x69, 0xC4, 0x6B]) []
            = (Inr (toHex (take 32 [0x69, 0xC4, 0x6B])),
               [] @ [\<lparr>cla = 0x80, ins = 0x01, p1 = 0x00, p2 = 0x00, data = []\<rparr>])"
    by (rule conjunct1)
  have p2: "?bip ?path = Some exampleSegments \<and> encodeSegments exampleSegments = Inr ?buf
      \<and> replyDevice [0x41, 0x04, 0x01] []
          \<lparr>cla = 0x80, ins = 0x04, p1 = 0x00, p2 = 0x00, data = ?buf\<rparr> = Inr [0x41, 0x04, 0x01]"
    using b e d by simp
  from short_response_is_truncated [where tr = "replyDevice [0x41, 0x04, 0x01]" and sent = "[]"
      and response = "[0x41, 0x04, 0x01]" and bip = ?bip and path = ?path
      and segs = exampleSegments and pathBuf = ?buf,
      THEN conjunct2, THEN conjunct1, THEN mp, OF p2]
  have w2: "getWalletExtendedPublicKey ?bip (replyDevice [0x41, 0x04, 0x01]) ?path []
            = (Inr \<lparr>public_key = toHex (rawPublicKey [0x41, 0x04, 0x01]),
                    chain_code = toHex (chainCode [0x41, 0x04, 0x01])\<rparr>,
               [] @ [\<lparr>cla = 0x80, ins = 0x04, p1 = 0x00, p2 = 0x00, data = ?buf\<rparr>])"
    by (rule conjunct1)
  have p3: "pathToBuffer ?bip ?path = Inr ?buf
      \<and> replyDevice reply [] \<lparr>cla = 0x80, ins = 0x02, p1 = 0x00, p2 = 0x00, data = ?buf\<rparr>
        = Inr reply" for reply
    using example_path d by simp
  have w3: "getWalletPublicKey ?bip (replyDevice reply) ?path False []
      = (if 2 \<le> length (rawPublicKey reply)
         then Inr \<lparr>publicKey = toHex (rawPublicKey reply),
                   lockArg = toHex (lockArgOf (filledKey (rawPublicKey reply))),
                   address = encodedAddress False (lockArgOf (filledKey (rawPublicKey reply)))\<rparr>
         else Inl InvalidArgValue,
         [] @ [\<lparr>cla = 0x80, ins = 0x02, p1 = 0x00, p2 = 0x00, data = ?buf\<rparr>])" for reply
    using short_response_is_truncated [where tr = "replyDevice reply" and sent = "[]"
      and response = reply and bip = ?bip and path = ?path and pathBuf = ?buf
      and testnet = False,
      THEN conjunct2, THEN conjunct2, THEN conjunct1, THEN mp, OF p3]
    by (rule conjunct1)
  have p4: "configDevice [1, 0] [0x90, 0x00] []
              \<lparr>cla = 0x80, ins = 0x00, p1 = 0x00, p2 = 0x00, data = []\<rparr> = Inr [1, 0]
      \<and> configDevice [1, 0] [0x90, 0x00]
              ([] @ [\<lparr>cla = 0x80, ins = 0x00, p1 = 0x00, p2 = 0x00, data = []\<rparr>])
              \<lparr>cla = 0x80, ins = 0x09, p1 = 0x00, p2 = 0x00, data = []\<rparr> = Inr [0x90, 0x00]"
    using g1 g2 by (rule conjI)
  from short_response_is_truncated [where tr = "configDevice [1, 0] [0x90, 0x00]"
      and sent = "[]" and response = "[1, 0]" and ?response2.0 = "[0x90, 0x00]",
      THEN conjunct2, THEN conjunct2, THEN conjunct2, THEN conjunct1, THEN mp, OF p4]
  have w4: "getAppConfiguration (configDevice [1, 0] [0x90, 0x00]) []
      = (Inr \<lparr>version = versionPart [1, 0] 0 @ ''.'' @ versionPart [1, 0] 1 @ ''.''
                        @ versionPart [1, 0] 2,
              hash = toLatin1 (take (length [0x90, 0x00 :: byte] - 3) [0x90, 0x00])\<rparr>,
         [] @ [\<lparr>cla = 0x80, ins = 0x00, p1 = 0x00, p2 = 0x00, data = []\<rparr>,
               \<lparr>cla = 0x80, ins = 0x09, p1 = 0x00, p2 = 0x00, data = []\<rparr>])"
    by (rule conjunct1)
  have p5: "?bip ?path = Some exampleSegments \<and> length exampleSegments \<le> 127
      \<and> (\<forall>s \<in> set exampleSegments. 0 \<le> s \<and> s \<le> 4294967295)
      \<and> ?msg = magicBytes @ fromHex ''CAfe0142''
      \<and> accepted (replyDevice [0x6A, 0x80]) []
          (signInitFrame exampleSegments True # continueFrames ?msg)
      \<and> replyDevice [0x6A, 0x80] ([] @ signInitFrame exampleSegments True # continueFrames ?msg)
          (finalFrame ?msg) = Inr [0x6A, 0x80]"
    using b n(1) rng accepted_replyDevice d by simp
  from short_response_is_truncated [where tr = "replyDevice [0x6A, 0x80]" and sent = "[]"
      and response = "[0x6A, 0x80]" and bip = ?bip and path = ?path
      and segs = exampleSegments and rawMsg = ?msg and rawMsgHex = "''CAfe0142''"
      and displayHex = True,
      THEN conjunct2, THEN conjunct2, THEN conjunct2, THEN conjunct2, THEN conjunct1,
      THEN mp, OF p5]
  have w5: "fst (signMessage ?bip (replyDevice [0x6A, 0x80]) ?path ''CAfe0142'' True [])
            = Inr (toHex (take 65 [0x6A, 0x80]))"
    by (rule conjunct1)
  have p6: "?bip ?path = Some exampleSegments \<and> length exampleSegments \<le> 255
      \<and> (\<forall>s \<in> set exampleSegments. 0 \<le> s \<and> s \<le> 4294967295)
      \<and> replyDevice [0x6A, 0x80] [] (pathFrame 0x07 exampleSegments) = Inr [0x6A, 0x80]
      \<and> replyDevice [0x6A, 0x80] ([] @ [pathFrame 0x07 exampleSegments])
          \<lparr>cla = 0x80, ins = 0x07, p1 = 0x80, p2 = 0x00, data = fromHex ''CAfe0142''\<rparr>
        = Inr [0x6A, 0x80]"
    using b n(2) rng d by simp
  from short_response_is_truncated [where tr = "replyDevice [0x6A, 0x80]" and sent = "[]"
      and response = "[0x6A, 0x80]" and ?response1.0 = "[0x6A, 0x80]" and bip = ?bip
      and path = ?path and segs = exampleSegments and rawMsgHex = "''CAfe0142''",
      THEN conjunct2, THEN conjunct2, THEN conjunct2, THEN conjunct2, THEN conjunct2,
      THEN mp, OF p6]
  have w6: "fst (signMessageHash ?bip (replyDevice [0x6A, 0x80]) ?path ''CAfe0142'' [])
            = Inr (toHex (take 65 [0x6A, 0x80]))"
    by (rule conjunct1)
  show ?thesis
    using w1 w2 w3 [of "[0x41, 0x04, 0x79, 0xBE]"] w3 [of "[0x90, 0x00]"] w3 [of "[]"] w4 w5 w6
    unfolding h1 h2 h3 h4 h5 h6 pathFrame_def
    by (simp add: toLatin1_def)
qed

text \<open>Claim C2 as stated fails: a response of three bytes to \<open>getWalletId\<close>, where 32 are
  required, is not an error; the three bytes come back as the identifier.\<close>

theorem short_response_counterexample:
  "length [0x69, 0xC4, 0x6B :: byte] < 32
   \<and> getWalletId (replyDevice [0x69, 0xC4, 0x6B]) []
     = (Inr ''69c46b'', [\<lparr>cla = 0x80, ins = 0x01, p1 = 0x00, p2 = 0x00, data = []\<rparr>])"
proof -
  have sl: "slice [0x69, 0xC4, 0x6B] 0 32 = [0x69, 0xC4, 0x6B]"
    using slice_nat [of "[0x69, 0xC4, 0x6B]" 0 32] by simp
  show ?thesis
    by (simp add: getWalletId_def andThen_def sync_def send_def replyDevice_def Let_def sl
        toHex_def hexDigit_def)
qed

end
